theory Spec2Isabelle
  imports Complex_Main
begin

section \<open>JavaScript strings\<close>

text \<open>
  The service is a JavaScript module. A JavaScript string is a sequence of code units;
  it is modelled as a \<^typ>\<open>string\<close>, a \<^typ>\<open>char\<close> standing for the code unit of the same
  number (so the model covers the code units 0 to 255). \<open>length\<close> is the \<open>.length\<close> of
  the source.
\<close>

definition isWhiteSpace :: "char \<Rightarrow> bool" where
  \<comment> \<open>the white space and line terminators that \<open>trim()\<close> and the regex class \<open>\s\<close> remove:
      tab, line feed, vertical tab, form feed, carriage return, space, no-break space\<close>
  "isWhiteSpace c =
     (c = CHR 0x09 \<or> c = CHR ''\<newline>'' \<or> c = CHR 0x0B \<or> c = CHR 0x0C \<or> c = CHR 0x0D
      \<or> c = CHR '' '' \<or> c = CHR 0xA0)"

definition trim :: "string \<Rightarrow> string" where
  "trim s = rev (dropWhile isWhiteSpace (rev (dropWhile isWhiteSpace s)))"

definition js_slice :: "string \<Rightarrow> int \<Rightarrow> int option \<Rightarrow> string" where
  \<comment> \<open>\<open>s.slice(start, end)\<close>: a negative index counts from the end, every index is clamped
      to the string, and a missing end is the length\<close>
  "js_slice s start end =
     (let n = int (length s);
          from = (if start < 0 then max (n + start) 0 else min start n);
          to = (case end of
                  None \<Rightarrow> n
                | Some e \<Rightarrow> if e < 0 then max (n + e) 0 else min e n)
      in take (nat (to - from)) (drop (nat from) s))"

section \<open>Token budget shaping\<close>

definition estimateTokens :: "string \<Rightarrow> nat" where
  \<comment> \<open>\<open>Math.ceil(text.length / 4)\<close>\<close>
  "estimateTokens text = nat \<lceil>rat_of_nat (length text) / 4\<rceil>"

definition truncation_marker :: string where
  "truncation_marker = ''\<newline>\<newline>[... content truncated for length ...]\<newline>\<newline>''"

definition truncateForContext :: "string \<Rightarrow> nat \<Rightarrow> string" where
  \<comment> \<open>\<open>maxTokens\<close> is a token count; \<open>Math.floor(maxChars / 2)\<close> is \<open>div\<close> on it\<close>
  "truncateForContext text maxTokens =
     (let estimated = estimateTokens text in
      if estimated \<le> maxTokens then text
      else
        let maxChars = int maxTokens * 4;
            halfChars = maxChars div 2 - 50;
            beginning = js_slice text 0 (Some halfChars);
            ending = js_slice text (- halfChars) None
        in beginning @ truncation_marker @ ending)"

subsection \<open>Chunking\<close>

text \<open>
  \<open>text.split(/\n\n+/)\<close>: the separators are the maximal runs of two or more line feeds,
  found from the left; the pieces between them are the paragraphs, an empty one before a
  leading and after a trailing separator.
\<close>

function split_paragraphs :: "string \<Rightarrow> string list" where
  "split_paragraphs [] = [[]]"
| "split_paragraphs (c # cs) =
     (if c = CHR ''\<newline>'' \<and> (case cs of [] \<Rightarrow> False | d # _ \<Rightarrow> d = CHR ''\<newline>'')
      then [] # split_paragraphs (dropWhile (\<lambda>x. x = CHR ''\<newline>'') cs)
      else (case split_paragraphs cs of
              [] \<Rightarrow> [[c]]
            | p # ps \<Rightarrow> (c # p) # ps))"
  by pat_completeness auto
termination
  by (relation "measure length") (auto simp: length_dropWhile_le less_Suc_eq_le)

definition append_paragraph :: "string \<Rightarrow> string \<Rightarrow> string" where
  \<comment> \<open>\<open>currentChunk += (currentChunk ? '\n\n' : '') + para\<close>\<close>
  "append_paragraph currentChunk para =
     currentChunk @ (if currentChunk \<noteq> [] then ''\<newline>\<newline>'' else []) @ para"

fun chunk_loop :: "nat \<Rightarrow> string list \<Rightarrow> string list \<Rightarrow> string \<Rightarrow> string list \<times> string" where
  "chunk_loop maxChars [] chunks currentChunk = (chunks, currentChunk)"
| "chunk_loop maxChars (para # paragraphs) chunks currentChunk =
     (if length (currentChunk @ para) > maxChars \<and> length currentChunk > 0
      then chunk_loop maxChars paragraphs (chunks @ [trim currentChunk]) para
      else chunk_loop maxChars paragraphs chunks (append_paragraph currentChunk para))"

definition chunkText :: "string \<Rightarrow> nat \<Rightarrow> string list" where
  "chunkText text maxTokensPerChunk =
     (let maxChars = maxTokensPerChunk * 4;
          (chunks, currentChunk) = chunk_loop maxChars (split_paragraphs text) [] []
      in if trim currentChunk \<noteq> [] then chunks @ [trim currentChunk] else chunks)"

text \<open>
  The vocabulary of the chunking property. A group is a run of consecutive paragraphs;
  \<open>join_paragraphs\<close> accumulates it as the loop does. A group is within the budget when
  its last paragraph was added to an empty chunk or the chunk and the paragraph together
  (the separator not counted, as in the source's test) fit the budget; a group overflows
  into the next one when it is not empty and the first paragraph of the next would not
  have fitted.
\<close>

definition join_paragraphs :: "string list \<Rightarrow> string" where
  "join_paragraphs g = foldl append_paragraph [] g"

definition within_budget :: "nat \<Rightarrow> string list \<Rightarrow> bool" where
  "within_budget maxChars g =
     (g \<noteq> [] \<and>
      (join_paragraphs (butlast g) = [] \<or>
       length (join_paragraphs (butlast g) @ last g) \<le> maxChars))"

definition overflows :: "nat \<Rightarrow> string list \<Rightarrow> string list \<Rightarrow> bool" where
  "overflows maxChars g h =
     (join_paragraphs g \<noteq> [] \<and>
      (case h of [] \<Rightarrow> False | para # _ \<Rightarrow> length (join_paragraphs g @ para) > maxChars))"

definition greedy_groups :: "nat \<Rightarrow> string list list \<Rightarrow> bool" where
  "greedy_groups maxChars groups =
     (list_all (within_budget maxChars) groups \<and> successively (overflows maxChars) groups)"

text \<open>The loop of \<open>chunkText\<close> on groups of paragraphs instead of joined text.\<close>

fun group_loop :: "nat \<Rightarrow> string list \<Rightarrow> string list list \<Rightarrow> string list \<Rightarrow> string list list \<times> string list" where
  "group_loop maxChars [] groups g = (groups, g)"
| "group_loop maxChars (para # paragraphs) groups g =
     (if length (join_paragraphs g @ para) > maxChars \<and> length (join_paragraphs g) > 0
      then group_loop maxChars paragraphs (groups @ [g]) [para]
      else group_loop maxChars paragraphs groups (g @ [para]))"

section \<open>Model catalog and integrity check\<close>

text \<open>
  The file system as the integrity check sees it: a path is absent, or it is present and
  \<open>statSync\<close> either gives the size in bytes or throws.
\<close>

type_synonym filesystem = "string \<rightharpoonup> (string + nat)"

definition existsSync :: "filesystem \<Rightarrow> string \<Rightarrow> bool" where
  "existsSync fs path = (fs path \<noteq> None)"

definition statSync :: "filesystem \<Rightarrow> string \<Rightarrow> string + nat" where
  "statSync fs path = (case fs path of None \<Rightarrow> Inl ''ENOENT'' | Some r \<Rightarrow> r)"

definition MODEL_SIZES :: "string \<rightharpoonup> nat" where
  "MODEL_SIZES = map_of
     [(''llama-3.2-1b-instruct.Q4_K_M.gguf'', 800000000),
      (''qwen2.5-1.5b-instruct.Q4_K_M.gguf'', 1000000000),
      (''smollm2-1.7b-instruct.Q4_K_M.gguf'', 1000000000),
      (''qwen2.5-0.5b-instruct.Q4_K_M.gguf'', 400000000)]"

definition isModelValid :: "filesystem \<Rightarrow> string \<Rightarrow> string \<Rightarrow> bool" where
  \<comment> \<open>\<open>expectedSize * 0.9\<close> is taken exactly; for the four sizes of the table the
      floating-point product is the exact one\<close>
  "isModelValid fs modelPath modelName =
     (if \<not> existsSync fs modelPath then False
      else case statSync fs modelPath of
             Inl e \<Rightarrow> False
           | Inr fileSize \<Rightarrow>
               (let tooSmall =
                      (case MODEL_SIZES modelName of
                         None \<Rightarrow> False
                       | Some expectedSize \<Rightarrow>
                           expectedSize \<noteq> 0 \<and>
                           rat_of_nat fileSize < rat_of_nat expectedSize * (9 / 10))
                in if tooSmall then False
                   else if fileSize < 100000000 then False
                   else True))"

section \<open>Service state and environment\<close>

text \<open>
  The module keeps its state in top-level variables; they are the fields of one record,
  together with the part of the outside world the module acts on: the files of the models
  directory, the replies the network will give to the successive requests, and the list
  of the effects performed so far (calls of registered listeners, warnings, requests,
  calls of the inference engine). An engine object is opaque; a handle is modelled by the
  path of the model file it came from.

  What the outside world answers is not decided by the module: it is a parameter, the
  environment, whose functions see the effects performed so far. A registered listener is
  an opaque callback: the environment tells whether a call of it returns or throws. The
  library functions whose results are not computed here are parameters as well:
  \<open>path.join\<close>, \<open>JSON.parse\<close>, and the percentage
  \<open>Math.round((downloadedBytes / totalBytes) * 100)\<close>, which the source computes in
  floating-point arithmetic.
\<close>

datatype progress_event = ProgressEvent string rat string "string option"
  \<comment> \<open>the arguments a listener receives: type, progress, model name, error message or null\<close>

datatype 'l effect =
    ListenerCall 'l progress_event
  | ConsoleWarn string
  | HttpGet string
  | Prompt string nat rat rat
  | GetLlama
  | EngineLoadModel string
  | CreateContext
  | CreateChatSession
  | DisposeContext
  | DisposeModel

datatype http_reply =
    RequestError string
  | Response nat "string option" "nat option" "nat list" bool
  \<comment> \<open>status code, \<open>Location\<close> header, \<open>Content-Length\<close> when it parses as a number, the
      lengths of the data chunks, and whether the stream then finishes\<close>

datatype json =
    JNull | JBool bool | JNumber rat | JString string
  | JArray "json list" | JObject "(string \<times> json) list"

record 'l service =
  llama :: "unit option"
  model :: "string option"
  llm_context :: "string option"
  chatSession :: "string option"
  currentModelName :: "string option"
  isLoading :: bool
  loadProgress :: rat
  progressListeners :: "'l list"
  files :: filesystem
  network :: "http_reply list"
  effects :: "'l effect list"

record 'l env =
  MODELS_DIR :: string
  join_path :: "string \<Rightarrow> string \<Rightarrow> string"
  round_percent :: "nat \<Rightarrow> nat \<Rightarrow> rat"
  listener_throws :: "'l effect list \<Rightarrow> 'l \<Rightarrow> progress_event \<Rightarrow> string option"
  session_prompt :: "'l effect list \<Rightarrow> string \<Rightarrow> nat \<Rightarrow> rat \<Rightarrow> rat \<Rightarrow> string + string"
  JSON_parse :: "string \<Rightarrow> string + json"
  unlink_error :: "string \<Rightarrow> string option"
  mkdir_error :: "string \<Rightarrow> string option"
  getLlama_error :: "'l effect list \<Rightarrow> string option"
  llama_loadModel_error :: "'l effect list \<Rightarrow> string \<Rightarrow> string option"
  createContext_error :: "'l effect list \<Rightarrow> string option"
  chatSession_error :: "'l effect list \<Rightarrow> string option"
  context_dispose_error :: "'l effect list \<Rightarrow> string option"
  model_dispose_error :: "'l effect list \<Rightarrow> string option"

definition emit :: "'l effect \<Rightarrow> 'l service \<Rightarrow> 'l service" where
  "emit e s = s\<lparr>effects := effects s @ [e]\<rparr>"

section \<open>Progress notifications\<close>

definition call_listener ::
  "'l env \<Rightarrow> 'l \<Rightarrow> progress_event \<Rightarrow> 'l service \<Rightarrow> (string + unit) \<times> 'l service" where
  \<comment> \<open>\<open>listener(type, progress, modelName, error)\<close>: returns, or throws \<open>e\<close>\<close>
  "call_listener env listener ev s =
     (case listener_throws env (effects s) listener ev of
        None \<Rightarrow> (Inr (), emit (ListenerCall listener ev) s)
      | Some e \<Rightarrow> (Inl e, emit (ListenerCall listener ev) s))"

definition notify_listener ::
  "'l env \<Rightarrow> progress_event \<Rightarrow> 'l \<Rightarrow> 'l service \<Rightarrow> (string + unit) \<times> 'l service" where
  \<comment> \<open>the loop body: \<open>try { listener(...) } catch (e) { console.warn(..., e) }\<close>\<close>
  "notify_listener env ev listener s =
     (case call_listener env listener ev s of
        (Inr u, s') \<Rightarrow> (Inr (), s')
      | (Inl e, s') \<Rightarrow> (Inr (), emit (ConsoleWarn e) s'))"

fun notify_loop ::
  "'l env \<Rightarrow> progress_event \<Rightarrow> 'l list \<Rightarrow> 'l service \<Rightarrow> (string + unit) \<times> 'l service" where
  "notify_loop env ev [] s = (Inr (), s)"
| "notify_loop env ev (listener # listeners) s =
     (case notify_listener env ev listener s of
        (Inl e, s') \<Rightarrow> (Inl e, s')
      | (Inr u, s') \<Rightarrow> notify_loop env ev listeners s')"

definition notifyProgress_result ::
  "'l env \<Rightarrow> string \<Rightarrow> rat \<Rightarrow> string \<Rightarrow> string option \<Rightarrow> 'l service \<Rightarrow> (string + unit) \<times> 'l service" where
  \<comment> \<open>\<open>progressListeners\<close> is a \<open>Set\<close>, iterated in insertion order\<close>
  "notifyProgress_result env type progress modelName error s =
     notify_loop env (ProgressEvent type progress modelName error) (progressListeners s) s"

definition notifyProgress ::
  "'l env \<Rightarrow> string \<Rightarrow> rat \<Rightarrow> string \<Rightarrow> string option \<Rightarrow> 'l service \<Rightarrow> 'l service" where
  "notifyProgress env type progress modelName error s =
     snd (notifyProgress_result env type progress modelName error s)"

definition onProgress :: "'l \<Rightarrow> 'l service \<Rightarrow> 'l service" where
  \<comment> \<open>\<open>progressListeners.add(listener)\<close>\<close>
  "onProgress listener s =
     (if listener \<in> set (progressListeners s) then s
      else s\<lparr>progressListeners := progressListeners s @ [listener]\<rparr>)"

fun listener_calls :: "'l effect list \<Rightarrow> ('l \<times> progress_event) list" where
  "listener_calls [] = []"
| "listener_calls (ListenerCall listener ev # es) = (listener, ev) # listener_calls es"
| "listener_calls (e # es) = listener_calls es"

text \<open>
  The specification of publishing, in its own words: every registered listener is invoked,
  in registration order; a listener that throws is caught and logged, and the next listener
  is invoked all the same. \<open>publish_spec\<close> is the trace of effects this prescribes, given
  the effects that precede it; it is compared with \<open>notify_loop\<close> below.
\<close>

fun publish_spec :: "'l env \<Rightarrow> progress_event \<Rightarrow> 'l list \<Rightarrow> 'l effect list \<Rightarrow> 'l effect list" where
  "publish_spec env ev [] history = []"
| "publish_spec env ev (listener # listeners) history =
     (let called = ListenerCall listener ev #
                     (case listener_throws env history listener ev of
                        None \<Rightarrow> []
                      | Some e \<Rightarrow> [ConsoleWarn e])
      in called @ publish_spec env ev listeners (history @ called))"

section \<open>Inference\<close>

record gen_options =
  opt_maxTokens :: "nat option"
  opt_temperature :: "rat option"
  opt_topP :: "rat option"

definition or_default :: "'a::zero option \<Rightarrow> 'a \<Rightarrow> 'a" where
  \<comment> \<open>\<open>options.x || CONFIG.X\<close>: a missing field and 0 both give the default\<close>
  "or_default v d = (case v of None \<Rightarrow> d | Some x \<Rightarrow> if x = 0 then d else x)"

definition chat ::
  "'l env \<Rightarrow> string \<Rightarrow> gen_options \<Rightarrow> 'l service \<Rightarrow> (string + string) \<times> 'l service" where
  "chat env prompt options s =
     (if model s = None \<or> chatSession s = None
      then (Inl ''Model not loaded. Call loadModel() first.'', s)
      else
        let maxTokens = or_default (opt_maxTokens options) 256;
            temperature = or_default (opt_temperature options) (7 / 10);
            topP = or_default (opt_topP options) (9 / 10)
        in (session_prompt env (effects s) prompt maxTokens temperature topP,
            emit (Prompt prompt maxTokens temperature topP) s))"

definition digit_char :: "nat \<Rightarrow> char" where
  "digit_char d = ''0123456789'' ! d"

function show_nat :: "nat \<Rightarrow> string" where
  \<comment> \<open>a number in a template string; the counts of the module are natural numbers\<close>
  "show_nat n = (if n < 10 then [digit_char n] else show_nat (n div 10) @ [digit_char (n mod 10)])"
  by pat_completeness auto
termination
  by (relation "measure id") auto

declare show_nat.simps [simp del]

fun js_join :: "string \<Rightarrow> string list \<Rightarrow> string" where
  \<comment> \<open>\<open>xs.join(sep)\<close>\<close>
  "js_join sep [] = []"
| "js_join sep [x] = x"
| "js_join sep (x # y # ys) = x @ sep @ js_join sep (y # ys)"

subsection \<open>Summarization\<close>

definition summary_prompt :: "nat \<Rightarrow> string \<Rightarrow> string" where
  "summary_prompt maxLength body =
     ''Summarize the following text in '' @ show_nat maxLength @
     '' sentences or less. Be concise and capture the main points:\<newline>\<newline>'' @ body @
     ''\<newline>\<newline>Summary:''"

definition chunk_prompt :: "string \<Rightarrow> string" where
  "chunk_prompt chunk =
     ''Summarize this text section in 1-2 sentences:\<newline>\<newline>'' @ chunk @ ''\<newline>\<newline>Summary:''"

definition final_prompt :: "nat \<Rightarrow> string \<Rightarrow> string" where
  "final_prompt maxLength combinedSummaries =
     ''Combine these summaries into a coherent '' @ show_nat maxLength @
     ''-sentence summary:\<newline>\<newline>'' @ combinedSummaries @ ''\<newline>\<newline>Final summary:''"

definition summary_options :: "nat \<Rightarrow> gen_options" where
  "summary_options n =
     \<lparr>opt_maxTokens = Some n, opt_temperature = Some (3 / 10), opt_topP = None\<rparr>"

fun summarize_chunks ::
  "'l env \<Rightarrow> string list \<Rightarrow> string list \<Rightarrow> 'l service \<Rightarrow> (string + string list) \<times> 'l service" where
  \<comment> \<open>the loop over \<open>chunks[i]\<close>, \<open>i < Math.min(chunks.length, 5)\<close>, given those chunks\<close>
  "summarize_chunks env [] chunkSummaries s = (Inr chunkSummaries, s)"
| "summarize_chunks env (chunk # chunks) chunkSummaries s =
     (case chat env (chunk_prompt chunk) (summary_options 100) s of
        (Inl e, s') \<Rightarrow> (Inl e, s')
      | (Inr summary, s') \<Rightarrow> summarize_chunks env chunks (chunkSummaries @ [trim summary]) s')"

definition summarize ::
  "'l env \<Rightarrow> string \<Rightarrow> nat \<Rightarrow> 'l service \<Rightarrow> (string + string) \<times> 'l service" where
  "summarize env text maxLength s =
     (if text = [] \<or> length (trim text) = 0 then (Inr [], s)
      else
        let estimatedTokens = estimateTokens text in
        if estimatedTokens < 700
        then chat env (summary_prompt maxLength text) (summary_options 256) s
        else
          let chunks = chunkText text 500 in
          if length chunks = 1
          then chat env (summary_prompt maxLength (truncateForContext text 700))
                 (summary_options 256) s
          else
            (case summarize_chunks env (take (min (length chunks) 5) chunks) [] s of
               (Inl e, s') \<Rightarrow> (Inl e, s')
             | (Inr chunkSummaries, s') \<Rightarrow>
                 chat env (final_prompt maxLength (js_join '' '' chunkSummaries))
                   (summary_options 256) s'))"

subsection \<open>Command parsing\<close>






subsection \<open>Batch categorization\<close>

record item =
  title :: string
  url :: string

record categorized = item +
  category :: string

definition with_category :: "item \<Rightarrow> string \<Rightarrow> categorized" where
  \<comment> \<open>\<open>{ ...item, category: c }\<close>\<close>
  "with_category it c = \<lparr>title = title it, url = url it, category = c\<rparr>"

definition toLowerCase_char :: "char \<Rightarrow> char" where
  "toLowerCase_char c =
     (let n = (of_char c :: nat)
      in if (65 \<le> n \<and> n \<le> 90) \<or> (192 \<le> n \<and> n \<le> 222 \<and> n \<noteq> 215)
         then char_of (n + 32) else c)"

definition toLowerCase :: "string \<Rightarrow> string" where
  "toLowerCase s = map toLowerCase_char s"

fun js_includes :: "string \<Rightarrow> string \<Rightarrow> bool" where
  \<comment> \<open>\<open>s.includes(sub)\<close>\<close>
  "js_includes [] sub = (sub = [])"
| "js_includes (c # cs) sub = (take (length sub) (c # cs) = sub \<or> js_includes cs sub)"

fun split_lines :: "string \<Rightarrow> string list" where
  \<comment> \<open>\<open>s.split('\n')\<close>\<close>
  "split_lines [] = [[]]"
| "split_lines (c # cs) =
     (if c = CHR ''\<newline>'' then [] # split_lines cs
      else (case split_lines cs of
              [] \<Rightarrow> [[c]]
            | l # ls \<Rightarrow> (c # l) # ls))"

text \<open>
  The regular expression \<open>/(?:\d+\.\s*)?(.+)/\<close>, read as the backtracking matcher reads
  it. At a start position the optional group is tried first: all the digits there (fewer
  cannot be followed by the dot), the dot, and as much white space as still leaves a
  character for the capture \<open>(.+)\<close>, which takes the characters up to the next line
  terminator. If the group cannot be matched the capture is tried alone, and if that
  fails the match is tried from the next position. The result is the capture.
\<close>

definition isLineTerminator :: "char \<Rightarrow> bool" where
  "isLineTerminator c = (c = CHR ''\<newline>'' \<or> c = CHR 0x0D)"

definition isDigit :: "char \<Rightarrow> bool" where
  "isDigit c = (48 \<le> (of_char c :: nat) \<and> (of_char c :: nat) \<le> 57)"

definition any_chars :: "string \<Rightarrow> string option" where
  "any_chars s =
     (case s of
        [] \<Rightarrow> None
      | c # _ \<Rightarrow>
          if isLineTerminator c then None
          else Some (takeWhile (\<lambda>x. \<not> isLineTerminator x) s))"

fun after_spaces :: "nat \<Rightarrow> string \<Rightarrow> string option" where
  "after_spaces 0 s = any_chars s"
| "after_spaces (Suc k) s =
     (case any_chars (drop (Suc k) s) of
        Some g \<Rightarrow> Some g
      | None \<Rightarrow> after_spaces k s)"

definition numbered :: "string \<Rightarrow> string option" where
  "numbered s =
     (if takeWhile isDigit s = [] then None
      else case dropWhile isDigit s of
             [] \<Rightarrow> None
           | c # r \<Rightarrow>
               if c = CHR ''.'' then after_spaces (length (takeWhile isWhiteSpace r)) r
               else None)"

definition match_at :: "string \<Rightarrow> string option" where
  "match_at s = (case numbered s of Some g \<Rightarrow> Some g | None \<Rightarrow> any_chars s)"

fun match_line :: "string \<Rightarrow> string option" where
  "match_line [] = None"
| "match_line (c # cs) =
     (case match_at (c # cs) of
        Some g \<Rightarrow> Some g
      | None \<Rightarrow> match_line cs)"

definition match_category :: "string list \<Rightarrow> string \<Rightarrow> string" where
  "match_category categories line =
     (let categoryText =
            (case match_line line of
               Some g \<Rightarrow> toLowerCase (trim g)
             | None \<Rightarrow> ''unknown'')
      in case find (\<lambda>c. toLowerCase c = categoryText \<or>
                          js_includes categoryText (toLowerCase c)) categories of
           None \<Rightarrow> ''unknown''
         | Some c \<Rightarrow> if c = [] then ''unknown'' else c)"

definition line_at :: "string list \<Rightarrow> nat \<Rightarrow> string" where
  \<comment> \<open>\<open>lines[idx] || ''\<close>\<close>
  "line_at lines idx = (if idx < length lines then lines ! idx else [])"

definition batch_prompt :: "string list \<Rightarrow> item list \<Rightarrow> string" where
  "batch_prompt categories batch =
     ''Categorize each URL into one of: '' @ js_join '', '' categories @
     ''\<newline>\<newline>URLs:\<newline>'' @
     js_join ''\<newline>''
       (map (\<lambda>(idx, it). show_nat (idx + 1) @ ''. \"'' @ title it @ ''\" - '' @ url it)
          (enumerate 0 batch)) @
     ''\<newline>\<newline>Reply with ONLY the category for each, one per line (e.g., \"1. Work\"):''"

function batch_loop ::
  "'l env \<Rightarrow> item list \<Rightarrow> string list \<Rightarrow> categorized list \<Rightarrow> 'l service \<Rightarrow>
     categorized list \<times> 'l service" where
  \<comment> \<open>the loop \<open>for (i = 0; i < items.length; i += 3)\<close>, on the items from \<open>i\<close> on\<close>
  "batch_loop env remaining categories results s =
     (if remaining = [] then (results, s)
      else
        let batch = take 3 remaining in
        case chat env (batch_prompt categories batch)
               \<lparr>opt_maxTokens = Some 64, opt_temperature = Some (1 / 10), opt_topP = None\<rparr> s of
          (Inr response, s') \<Rightarrow>
            (let lines = split_lines (trim response)
             in batch_loop env (drop 3 remaining) categories
                  (results @
                   map (\<lambda>(idx, it). with_category it (match_category categories (line_at lines idx)))
                     (enumerate 0 batch))
                  s')
        | (Inl error, s') \<Rightarrow>
            batch_loop env (drop 3 remaining) categories
              (results @ map (\<lambda>it. with_category it ''unknown'') batch)
              (emit (ConsoleWarn error) s'))"
  by pat_completeness auto
termination
  by (relation "measure (\<lambda>(env, remaining, categories, results, s). length remaining)") auto

declare batch_loop.simps [simp del]

definition batchCategorize ::
  "'l env \<Rightarrow> item list \<Rightarrow> string list \<Rightarrow> 'l service \<Rightarrow> categorized list \<times> 'l service" where
  "batchCategorize env items categories s =
     (if items = [] then ([], s) else batch_loop env items categories [] s)"

section \<open>Model management\<close>

text \<open>
  An \<open>async\<close> function runs without interruption from one \<open>await\<close> to the next; other
  calls of the module can run only while it is suspended. A call either returns, throws,
  or stays pending for ever when the promise it waits for is never settled.
\<close>

datatype 'a completion = Returned 'a | Threw string | Pending

definition DEFAULT_MODEL :: string where
  "DEFAULT_MODEL = ''llama-3.2-1b-instruct.Q4_K_M.gguf''"

definition MODEL_URLS :: "string \<rightharpoonup> string" where
  \<comment> \<open>the entries of the table; a model name is a file name, not the name of a member
      that every object inherits\<close>
  "MODEL_URLS = map_of
     [(''llama-3.2-1b-instruct.Q4_K_M.gguf'',
       ''https://huggingface.co/bartowski/Llama-3.2-1B-Instruct-GGUF/resolve/main/Llama-3.2-1B-Instruct-Q4_K_M.gguf''),
      (''qwen2.5-1.5b-instruct.Q4_K_M.gguf'',
       ''https://huggingface.co/Qwen/Qwen2.5-1.5B-Instruct-GGUF/resolve/main/qwen2.5-1.5b-instruct-q4_k_m.gguf''),
      (''smollm2-1.7b-instruct.Q4_K_M.gguf'',
       ''https://huggingface.co/bartowski/SmolLM2-1.7B-Instruct-GGUF/resolve/main/SmolLM2-1.7B-Instruct-Q4_K_M.gguf''),
      (''qwen2.5-0.5b-instruct.Q4_K_M.gguf'',
       ''https://huggingface.co/Qwen/Qwen2.5-0.5B-Instruct-GGUF/resolve/main/qwen2.5-0.5b-instruct-q4_k_m.gguf'')]"

definition initial_service :: "'l service" where
  \<comment> \<open>the module's variables as they are declared, in an empty world\<close>
  "initial_service =
     \<lparr>llama = None, model = None, llm_context = None, chatSession = None,
      currentModelName = None, isLoading = False, loadProgress = 0,
      progressListeners = [], files = Map.empty, network = [], effects = []\<rparr>"

definition deleteModel :: "'l env \<Rightarrow> string \<Rightarrow> 'l service \<Rightarrow> 'l service" where
  "deleteModel env modelPath s =
     (if existsSync (files s) modelPath
      then (case unlink_error env modelPath of
              None \<Rightarrow> s\<lparr>files := (files s)(modelPath := None)\<rparr>
            | Some e \<Rightarrow> emit (ConsoleWarn e) s)
      else s)"

subsection \<open>Download\<close>

fun data_events ::
  "'l env \<Rightarrow> string \<Rightarrow> string \<Rightarrow> (rat \<Rightarrow> 'l service \<Rightarrow> 'l service) \<Rightarrow> nat \<Rightarrow> nat list \<Rightarrow> nat \<Rightarrow>
     'l service \<Rightarrow> 'l service" where
  \<comment> \<open>the \<open>data\<close> events of a response, the chunks being piped to the file\<close>
  "data_events env modelName modelPath onProgressCb totalBytes [] downloadedBytes s = s"
| "data_events env modelName modelPath onProgressCb totalBytes (chunk # chunks) downloadedBytes s =
     (let downloaded = downloadedBytes + chunk;
          s1 = s\<lparr>files := (files s)(modelPath \<mapsto> Inr downloaded)\<rparr>;
          s2 = (if totalBytes > 0
                then let progress = round_percent env downloaded totalBytes
                     in notifyProgress env ''download'' progress modelName None
                          (onProgressCb progress s1)
                else s1)
      in data_events env modelName modelPath onProgressCb totalBytes chunks downloaded s2)"

fun await_response ::
  "'l env \<Rightarrow> string \<Rightarrow> string \<Rightarrow> (rat \<Rightarrow> 'l service \<Rightarrow> 'l service) \<Rightarrow> http_reply list \<Rightarrow>
     'l service \<Rightarrow> string completion \<times> 'l service" where
  \<comment> \<open>\<open>handleResponse\<close> and the \<open>error\<close> handlers, run on the replies of the network to the
      successive requests; with no reply left the promise is never settled\<close>
  "await_response env modelName modelPath onProgressCb [] s = (Pending, s)"
| "await_response env modelName modelPath onProgressCb (reply # replies) s =
     (let s1 = s\<lparr>network := replies\<rparr> in
      case reply of
        RequestError err \<Rightarrow> (Threw err, s1)
      | Response statusCode location contentLength chunks finished \<Rightarrow>
          if statusCode = 301 \<or> statusCode = 302
          then (case location of
                  None \<Rightarrow> (Pending, s1)
                | Some redirectUrl \<Rightarrow>
                    await_response env modelName modelPath onProgressCb replies
                      (emit (HttpGet redirectUrl) s1))
          else if statusCode \<noteq> 200
          then (Threw (''Download failed: HTTP '' @ show_nat statusCode), s1)
          else
            let totalBytes = (case contentLength of None \<Rightarrow> 0 | Some n \<Rightarrow> n);
                s2 = data_events env modelName modelPath onProgressCb totalBytes chunks 0 s1
            in if finished then (Returned modelPath, onProgressCb 100 s2) else (Pending, s2))"

datatype download_start = Settled "string completion" | Requested

definition downloadModel_start ::
  "'l env \<Rightarrow> string \<Rightarrow> (rat \<Rightarrow> 'l service \<Rightarrow> 'l service) \<Rightarrow> 'l service \<Rightarrow>
     download_start \<times> 'l service" where
  \<comment> \<open>\<open>downloadModel\<close> up to the point where its promise is returned: already settled, or
      pending with the write stream created and the request sent; the stream has not
      opened its file yet\<close>
  "downloadModel_start env modelName onProgressCb s =
     (case MODEL_URLS modelName of
        None \<Rightarrow> (Settled (Threw (''Unknown model: '' @ modelName)), s)
      | Some sourceUrl \<Rightarrow>
          let modelPath = join_path env (MODELS_DIR env) modelName in
          if existsSync (files s) modelPath \<and> isModelValid (files s) modelPath modelName
          then (Settled (Returned modelPath), onProgressCb 100 s)
          else
            let s1 = (if existsSync (files s) modelPath then deleteModel env modelPath s else s)
            in (Requested, emit (HttpGet sourceUrl) s1))"

definition download_await ::
  "'l env \<Rightarrow> string \<Rightarrow> (rat \<Rightarrow> 'l service \<Rightarrow> 'l service) \<Rightarrow> 'l service \<Rightarrow>
     string completion \<times> 'l service" where
  \<comment> \<open>the pending download: the write stream opens its file, creating it empty, and the
      replies are handled. With no models directory the stream cannot open the file and
      emits \<open>error\<close>, which no handler turns into a rejection: the promise is never
      settled\<close>
  "download_await env modelName onProgressCb s =
     (let modelPath = join_path env (MODELS_DIR env) modelName in
      if existsSync (files s) (MODELS_DIR env)
      then await_response env modelName modelPath onProgressCb (network s)
             (s\<lparr>files := (files s)(modelPath \<mapsto> Inr 0)\<rparr>)
      else (Pending, s))"

definition downloadModel ::
  "'l env \<Rightarrow> string \<Rightarrow> (rat \<Rightarrow> 'l service \<Rightarrow> 'l service) \<Rightarrow> 'l service \<Rightarrow>
     string completion \<times> 'l service" where
  "downloadModel env modelName onProgressCb s =
     (case downloadModel_start env modelName onProgressCb s of
        (Settled c, s') \<Rightarrow> (c, s')
      | (Requested, s') \<Rightarrow> download_await env modelName onProgressCb s')"

subsection \<open>Load and unload\<close>

definition initializeLLM :: "'l env \<Rightarrow> 'l service \<Rightarrow> bool \<times> 'l service" where
  "initializeLLM env s =
     (case (if \<not> existsSync (files s) (MODELS_DIR env)
            then (case mkdir_error env (MODELS_DIR env) of
                    Some e \<Rightarrow> Inl e
                  | None \<Rightarrow> Inr (s\<lparr>files := (files s)(MODELS_DIR env \<mapsto> Inr 0)\<rparr>))
            else Inr s) of
        Inl e \<Rightarrow> (False, s)
      | Inr s1 \<Rightarrow>
          (case getLlama_error env (effects s1) of
             Some e \<Rightarrow> (False, emit GetLlama s1)
           | None \<Rightarrow> (True, (emit GetLlama s1)\<lparr>llama := Some ()\<rparr>)))"

definition unloadModel :: "'l env \<Rightarrow> 'l service \<Rightarrow> (string + unit) \<times> 'l service" where
  "unloadModel env s =
     (let s1 = (if chatSession s \<noteq> None then s\<lparr>chatSession := None\<rparr> else s) in
      case (if llm_context s1 \<noteq> None
            then (case context_dispose_error env (effects s1) of
                    Some e \<Rightarrow> (Inl e, emit DisposeContext s1)
                  | None \<Rightarrow> (Inr (), (emit DisposeContext s1)\<lparr>llm_context := None\<rparr>))
            else (Inr (), s1)) of
        (Inl e, s2) \<Rightarrow> (Inl e, s2)
      | (Inr u, s2) \<Rightarrow>
          (case (if model s2 \<noteq> None
                 then (case model_dispose_error env (effects s2) of
                         Some e \<Rightarrow> (Inl e, emit DisposeModel s2)
                       | None \<Rightarrow> (Inr (), (emit DisposeModel s2)\<lparr>model := None\<rparr>))
                 else (Inr (), s2)) of
             (Inl e, s3) \<Rightarrow> (Inl e, s3)
           | (Inr u, s3) \<Rightarrow> (Inr (), s3\<lparr>currentModelName := None\<rparr>)))"

definition null_llama_error :: string where
  \<comment> \<open>the \<open>TypeError\<close> of \<open>llama.loadModel\<close> when \<open>llama\<close> is still null\<close>
  "null_llama_error = ''Cannot read properties of null (reading 'loadModel')''"

definition load_try ::
  "'l env \<Rightarrow> string \<Rightarrow> string \<Rightarrow> 'l service \<Rightarrow> (string + bool) \<times> 'l service" where
  \<comment> \<open>the \<open>try\<close> block of \<open>loadModel\<close>\<close>
  "load_try env modelName modelPath s =
     (case (if model s \<noteq> None then unloadModel env s else (Inr (), s)) of
        (Inl e, s1) \<Rightarrow> (Inl e, s1)
      | (Inr u, s1) \<Rightarrow>
          let s2 = (if llama s1 = None then snd (initializeLLM env s1) else s1) in
          if llama s2 = None then (Inl null_llama_error, s2)
          else
            (case llama_loadModel_error env (effects s2) modelPath of
               Some e \<Rightarrow> (Inl e, emit (EngineLoadModel modelPath) s2)
             | None \<Rightarrow>
                 let s3 = notifyProgress env ''loading'' 80 modelName None
                            ((emit (EngineLoadModel modelPath) s2)
                               \<lparr>model := Some modelPath, loadProgress := 80\<rparr>)
                 in
                 (case createContext_error env (effects s3) of
                    Some e \<Rightarrow> (Inl e, emit CreateContext s3)
                  | None \<Rightarrow>
                      let s4 = (emit CreateContext s3)\<lparr>llm_context := Some modelPath\<rparr> in
                      (case chatSession_error env (effects s4) of
                         Some e \<Rightarrow> (Inl e, emit CreateChatSession s4)
                       | None \<Rightarrow>
                           (Inr True,
                            notifyProgress env ''loaded'' 100 modelName None
                              ((emit CreateChatSession s4)
                                 \<lparr>chatSession := Some modelPath,
                                  currentModelName := Some modelName,
                                  loadProgress := 100, isLoading := False\<rparr>))))))"

definition loadModel_load :: "'l env \<Rightarrow> string \<Rightarrow> 'l service \<Rightarrow> bool completion \<times> 'l service" where
  \<comment> \<open>\<open>loadModel\<close> from \<open>isLoading = true\<close> on\<close>
  "loadModel_load env modelName s =
     (let modelPath = join_path env (MODELS_DIR env) modelName;
          s1 = notifyProgress env ''loading'' 50 modelName None
                 (s\<lparr>isLoading := True, loadProgress := 50\<rparr>)
      in case load_try env modelName modelPath s1 of
           (Inr r, s2) \<Rightarrow> (Returned r, s2)
         | (Inl error, s2) \<Rightarrow>
             (Threw error,
              notifyProgress env ''error'' 0 modelName (Some error)
                (s2\<lparr>isLoading := False, loadProgress := 0\<rparr>)))"

definition download_progress :: "'l env \<Rightarrow> string \<Rightarrow> rat \<Rightarrow> 'l service \<Rightarrow> 'l service" where
  \<comment> \<open>the callback \<open>loadModel\<close> passes to \<open>downloadModel\<close>\<close>
  "download_progress env modelName progress s =
     notifyProgress env ''loading'' (progress * (1 / 2)) modelName None
       (s\<lparr>loadProgress := progress * (1 / 2)\<rparr>)"

datatype load_entry = Rejected string | Resolved bool | AwaitingDownload download_start | Proceed

definition loadModel_begin :: "'l env \<Rightarrow> string \<Rightarrow> 'l service \<Rightarrow> load_entry \<times> 'l service" where
  \<comment> \<open>\<open>loadModel\<close> from the call to its first suspension at \<open>await downloadModel(...)\<close>, or, when
      the file is there, to the line \<open>isLoading = true\<close>\<close>
  "loadModel_begin env modelName s =
     (if isLoading s then (Rejected ''Model is already loading'', s)
      else if currentModelName s = Some modelName \<and> model s \<noteq> None then (Resolved True, s)
      else
        let modelPath = join_path env (MODELS_DIR env) modelName in
        if \<not> existsSync (files s) modelPath
        then (case downloadModel_start env modelName (download_progress env modelName) s of
                (d, s') \<Rightarrow> (AwaitingDownload d, s'))
        else (Proceed, s))"

definition loadModel :: "'l env \<Rightarrow> string \<Rightarrow> 'l service \<Rightarrow> bool completion \<times> 'l service" where
  \<comment> \<open>a call of \<open>loadModel\<close> during which no other call of the module runs\<close>
  "loadModel env modelName s =
     (case loadModel_begin env modelName s of
        (Rejected e, s') \<Rightarrow> (Threw e, s')
      | (Resolved r, s') \<Rightarrow> (Returned r, s')
      | (Proceed, s') \<Rightarrow> loadModel_load env modelName s'
      | (AwaitingDownload d, s') \<Rightarrow>
          (case (case d of
                   Settled c \<Rightarrow> (c, s')
                 | Requested \<Rightarrow>
                     download_await env modelName (download_progress env modelName) s') of
             (Returned p, s'') \<Rightarrow> loadModel_load env modelName s''
           | (Threw e, s'') \<Rightarrow> (Threw e, s'')
           | (Pending, s'') \<Rightarrow> (Pending, s'')))"

subsection \<open>An environment and states to run the model on\<close>

definition calm_env :: "nat env" where
  \<comment> \<open>an environment in which no listener throws and no call of the engine or of the file
      system fails; the session answers every prompt with the same text; paths are joined
      with a slash, as \<open>path.join\<close> does for a directory and a plain file name\<close>
  "calm_env =
     \<lparr>MODELS_DIR = ''/home/user/.cooldesk/models'',
      join_path = (\<lambda>dir name. dir @ ''/'' @ name),
      round_percent =
        (\<lambda>downloaded total. rat_of_int \<lfloor>rat_of_nat downloaded / rat_of_nat total * 100 + 1 / 2\<rfloor>),
      listener_throws = (\<lambda>h l ev. None),
      session_prompt = (\<lambda>h prompt maxTokens temperature topP. Inr ''A summary.''),
      JSON_parse = (\<lambda>t. Inl ''SyntaxError''),
      unlink_error = (\<lambda>p. None),
      mkdir_error = (\<lambda>p. None),
      getLlama_error = (\<lambda>h. None),
      llama_loadModel_error = (\<lambda>h p. None),
      createContext_error = (\<lambda>h. None),
      chatSession_error = (\<lambda>h. None),
      context_dispose_error = (\<lambda>h. None),
      model_dispose_error = (\<lambda>h. None)\<rparr>"

definition loaded_service :: "nat service" where
  \<comment> \<open>the state after the default model has been loaded from its file, one listener
      being registered\<close>
  "loaded_service =
     \<lparr>llama = Some (),
      model = Some ''/home/user/.cooldesk/models/llama-3.2-1b-instruct.Q4_K_M.gguf'',
      llm_context = Some ''/home/user/.cooldesk/models/llama-3.2-1b-instruct.Q4_K_M.gguf'',
      chatSession = Some ''/home/user/.cooldesk/models/llama-3.2-1b-instruct.Q4_K_M.gguf'',
      currentModelName = Some ''llama-3.2-1b-instruct.Q4_K_M.gguf'',
      isLoading = False, loadProgress = 100,
      progressListeners = [0],
      files = [''/home/user/.cooldesk/models'' \<mapsto> Inr 0,
               ''/home/user/.cooldesk/models/llama-3.2-1b-instruct.Q4_K_M.gguf'' \<mapsto> Inr 800000000],
      network = [], effects = []\<rparr>"


definition long_document :: string where
  \<comment> \<open>six paragraphs of 1500 characters\<close>
  "long_document =
     replicate 1500 (CHR ''a'') @ ''\<newline>\<newline>'' @ replicate 1500 (CHR ''b'') @ ''\<newline>\<newline>'' @
     replicate 1500 (CHR ''c'') @ ''\<newline>\<newline>'' @ replicate 1500 (CHR ''d'') @ ''\<newline>\<newline>'' @
     replicate 1500 (CHR ''e'') @ ''\<newline>\<newline>'' @ replicate 1500 (CHR ''f'')"

section \<open>Properties of the token budget shaping\<close>

lemma estimateTokens_div: "estimateTokens text = (length text + 3) div 4"
proof -
  have "\<lceil>rat_of_nat (length text) / 4\<rceil> = \<lceil>rat_of_int (int (length text)) / rat_of_int 4\<rceil>"
    by simp
  also have "\<dots> = - (- int (length text) div 4)"
    by (rule ceiling_divide_eq_div)
  finally show ?thesis
    unfolding estimateTokens_def by linarith
qed

lemma truncate_short: "estimateTokens text \<le> maxTokens \<Longrightarrow> truncateForContext text maxTokens = text"
  by (simp add: truncateForContext_def)

lemma truncate_long:
  assumes "26 \<le> maxTokens" and "maxTokens < estimateTokens text"
  shows "truncateForContext text maxTokens =
           take (maxTokens * 4 div 2 - 50) text @ truncation_marker @
           drop (length text - (maxTokens * 4 div 2 - 50)) text"
proof -
  from assms(2) have len: "4 * maxTokens < length text"
    by (simp add: estimateTokens_div)
  define h where "h = maxTokens * 4 div 2 - 50"
  have h: "int h = int maxTokens * 4 div 2 - 50" "0 < h" "h < length text"
    using assms(1) len by (auto simp: h_def)
  have b: "js_slice text 0 (Some (int h)) = take h text"
    using h(2,3) by (simp add: js_slice_def Let_def min_def)
  have e: "js_slice text (- int h) None = drop (length text - h) text"
    using h(2,3) by (simp add: js_slice_def Let_def max_def nat_diff_distrib')
  have "truncateForContext text maxTokens =
          js_slice text 0 (Some (int h)) @ truncation_marker @ js_slice text (- int h) None"
    using assms(2) by (simp add: truncateForContext_def Let_def h(1))
  then have "truncateForContext text maxTokens =
          take h text @ truncation_marker @ drop (length text - h) text"
    by (simp only: b e)
  then show ?thesis
    by (simp only: h_def)
qed

text \<open>
  Claim C6, as amended. For a budget of at least 26 tokens, \<open>truncateForContext\<close> returns
  its input unchanged exactly when the estimate \<open>ceil(length / 4)\<close> is at most
  \<open>maxTokens\<close>; otherwise the result is the first \<open>floor(maxTokens * 4 / 2) - 50\<close>
  characters of the text, the literal marker, and the last
  \<open>floor(maxTokens * 4 / 2) - 50\<close> characters of the text.
\<close>

theorem truncateForContext_shape:
  assumes "26 \<le> maxTokens"
  shows "(truncateForContext text maxTokens = text) = (estimateTokens text \<le> maxTokens) \<and>
         (maxTokens < estimateTokens text \<longrightarrow>
            truncateForContext text maxTokens =
              take (maxTokens * 4 div 2 - 50) text @ truncation_marker @
              drop (length text - (maxTokens * 4 div 2 - 50)) text \<and>
            length (take (maxTokens * 4 div 2 - 50) text) = maxTokens * 4 div 2 - 50 \<and>
            length (drop (length text - (maxTokens * 4 div 2 - 50)) text) = maxTokens * 4 div 2 - 50)"
proof -
  have long: "truncateForContext text maxTokens \<noteq> text \<and>
      length (take (maxTokens * 4 div 2 - 50) text) = maxTokens * 4 div 2 - 50 \<and>
      length (drop (length text - (maxTokens * 4 div 2 - 50)) text) = maxTokens * 4 div 2 - 50"
    if lt: "maxTokens < estimateTokens text"
  proof -
    from lt have len: "4 * maxTokens < length text"
      by (simp add: estimateTokens_div)
    have "length (truncateForContext text maxTokens) < length text"
      using len assms by (simp add: truncate_long [OF assms lt] truncation_marker_def)
    then show ?thesis using len assms by auto
  qed
  show ?thesis
    using long truncate_short [of "text" maxTokens] truncate_long [OF assms, of "text"]
    by (cases "estimateTokens text \<le> maxTokens") auto
qed

theorem truncateForContext_shape_witness:
  "(26::nat) \<le> 26 \<and> 26 < estimateTokens (replicate 105 (CHR ''a'')) \<and>
   truncateForContext (replicate 105 (CHR ''a'')) 26 =
     replicate 2 (CHR ''a'') @ truncation_marker @ replicate 2 (CHR ''a'') \<and>
   truncateForContext ''short'' 26 = ''short''"
  using truncateForContext_shape [of 26 "replicate 105 (CHR ''a'')"]
        truncateForContext_shape [of 26 "''short''"]
  by (simp add: estimateTokens_div)

text \<open>
  At a budget of 25 tokens the half length is 0: \<open>slice(0, 0)\<close> is empty but
  \<open>slice(-0)\<close> is the whole text, so the result is the marker followed by all of the
  input, not the marker between two empty pieces.
\<close>

theorem truncateForContext_counterexample:
  "25 < estimateTokens (replicate 101 (CHR ''a'')) \<and>
   truncateForContext (replicate 101 (CHR ''a'')) 25 =
     truncation_marker @ replicate 101 (CHR ''a'') \<and>
   truncateForContext (replicate 101 (CHR ''a'')) 25 \<noteq>
     take (25 * 4 div 2 - 50) (replicate 101 (CHR ''a'')) @ truncation_marker @
     drop (length (replicate 101 (CHR ''a'')) - (25 * 4 div 2 - 50)) (replicate 101 (CHR ''a''))"
  by (simp add: truncateForContext_def estimateTokens_div js_slice_def truncation_marker_def)

section \<open>Properties of chunking\<close>

lemma join_paragraphs_snoc:
  "join_paragraphs (g @ [para]) = append_paragraph (join_paragraphs g) para"
  by (simp add: join_paragraphs_def)

lemma join_paragraphs_single: "join_paragraphs [para] = para"
  by (simp add: join_paragraphs_def append_paragraph_def)

lemma chunk_loop_groups:
  "chunk_loop maxChars paragraphs (map (\<lambda>g. trim (join_paragraphs g)) groups) (join_paragraphs g) =
     (case group_loop maxChars paragraphs groups g of
        (groups', g') \<Rightarrow> (map (\<lambda>g. trim (join_paragraphs g)) groups', join_paragraphs g'))"
proof (induction paragraphs arbitrary: groups g)
  case Nil
  show ?case by simp
next
  case (Cons para paragraphs)
  show ?case
  proof (cases "length (join_paragraphs g @ para) > maxChars \<and> length (join_paragraphs g) > 0")
    case True
    then show ?thesis
      using Cons.IH [of "groups @ [g]" "[para]"]
      by (simp add: join_paragraphs_single)
  next
    case False
    then show ?thesis
      using Cons.IH [of groups "g @ [para]"]
      by (auto simp: join_paragraphs_snoc)
  qed
qed

lemma group_loop_concat:
  "group_loop maxChars paragraphs groups g = (groups', g') \<Longrightarrow>
     concat groups' @ g' = concat groups @ g @ paragraphs"
  by (induction paragraphs arbitrary: groups g) (auto split: if_splits)

lemma group_loop_greedy:
  "group_loop maxChars paragraphs groups g = (groups', g') \<Longrightarrow> g \<noteq> [] \<Longrightarrow>
   greedy_groups maxChars (groups @ [g]) \<Longrightarrow>
     g' \<noteq> [] \<and> greedy_groups maxChars (groups' @ [g'])"
proof (induction paragraphs arbitrary: groups g)
  case Nil
  then show ?case by simp
next
  case (Cons para paragraphs)
  show ?case
  proof (cases "length (join_paragraphs g @ para) > maxChars \<and> length (join_paragraphs g) > 0")
    case True
    with Cons.prems(1) have run: "group_loop maxChars paragraphs (groups @ [g]) [para] = (groups', g')"
      by simp
    have "greedy_groups maxChars ((groups @ [g]) @ [[para]])"
      using Cons.prems(3) True
      by (simp add: greedy_groups_def successively_append_iff within_budget_def
          overflows_def join_paragraphs_def)
    from Cons.IH [OF run _ this] show ?thesis by simp
  next
    case False
    with Cons.prems(1) have run: "group_loop maxChars paragraphs groups (g @ [para]) = (groups', g')"
      by auto
    have "greedy_groups maxChars (groups @ [g @ [para]])"
      using Cons.prems(2,3) False
      by (auto simp: greedy_groups_def successively_append_iff within_budget_def
          overflows_def split: list.splits)
    from Cons.IH [OF run _ this] show ?thesis by simp
  qed
qed

lemma split_paragraphs_not_Nil: "split_paragraphs text \<noteq> []"
  by (induction "text" rule: split_paragraphs.induct) (auto split: list.splits)

text \<open>
  Claim C5, as amended. \<open>chunkText\<close> splits only at the runs of blank lines and never
  splits a paragraph: the paragraphs of the input, all of them and in order, fall into
  consecutive groups; the chunks are the groups joined with a blank line and trimmed, in
  order, a last group of white space only giving no chunk. The accumulation is greedy with
  respect to the source's test: a paragraph joins a non-empty chunk exactly when chunk and
  paragraph together, the separator not counted, are within \<open>maxTokensPerChunk * 4\<close>
  characters.
\<close>

theorem chunkText_groups:
  "\<exists>groups. concat groups = split_paragraphs text \<and>
     greedy_groups (maxTokensPerChunk * 4) groups \<and> groups \<noteq> [] \<and>
     chunkText text maxTokensPerChunk =
       map (\<lambda>g. trim (join_paragraphs g))
         (if trim (join_paragraphs (last groups)) = [] then butlast groups else groups)"
proof -
  obtain para paragraphs where ps: "split_paragraphs text = para # paragraphs"
    using split_paragraphs_not_Nil [of "text"] by (cases "split_paragraphs text") auto
  obtain groups' g' where run: "group_loop (maxTokensPerChunk * 4) paragraphs [] [para] = (groups', g')"
    by (cases "group_loop (maxTokensPerChunk * 4) paragraphs [] [para]") auto
  have start: "group_loop (maxTokensPerChunk * 4) (para # paragraphs) [] [] = (groups', g')"
    using run by (simp add: join_paragraphs_def)
  have cat: "concat (groups' @ [g']) = split_paragraphs text"
    using group_loop_concat [OF start] ps by simp
  have "greedy_groups (maxTokensPerChunk * 4) ([] @ [[para]])"
    by (simp add: greedy_groups_def within_budget_def join_paragraphs_def)
  from group_loop_greedy [OF run _ this]
  have greedy: "g' \<noteq> []" "greedy_groups (maxTokensPerChunk * 4) (groups' @ [g'])"
    by simp_all
  have "chunk_loop (maxTokensPerChunk * 4) (split_paragraphs text) [] [] =
          (map (\<lambda>g. trim (join_paragraphs g)) groups', join_paragraphs g')"
    using chunk_loop_groups [of "maxTokensPerChunk * 4" "para # paragraphs" "[]" "[]"] start ps
    by (simp add: join_paragraphs_def)
  then have "chunkText text maxTokensPerChunk =
       map (\<lambda>g. trim (join_paragraphs g))
         (if trim (join_paragraphs (last (groups' @ [g']))) = [] then butlast (groups' @ [g'])
          else groups' @ [g'])"
    by (simp add: chunkText_def)
  with cat greedy(2) show ?thesis
    by (intro exI [of _ "groups' @ [g']"]) simp
qed

theorem chunkText_groups_witness:
  "\<exists>groups. concat groups = [''ab'', ''cd'', ''efgh''] \<and> greedy_groups (1 * 4) groups \<and>
     groups \<noteq> [] \<and>
     [''ab\<newline>\<newline>cd'', ''efgh''] =
       map (\<lambda>g. trim (join_paragraphs g))
         (if trim (join_paragraphs (last groups)) = [] then butlast groups else groups)"
proof -
  have "split_paragraphs ''ab\<newline>\<newline>cd\<newline>\<newline>\<newline>efgh'' = [''ab'', ''cd'', ''efgh'']"
    by simp
  moreover have "chunkText ''ab\<newline>\<newline>cd\<newline>\<newline>\<newline>efgh'' 1 = [''ab\<newline>\<newline>cd'', ''efgh'']"
    by (simp add: chunkText_def append_paragraph_def trim_def isWhiteSpace_def)
  ultimately show ?thesis
    using chunkText_groups [of "''ab\<newline>\<newline>cd\<newline>\<newline>\<newline>efgh''" 1] by simp
qed

text \<open>
  The budget itself is not a bound on the chunks. With a budget of 4 characters the two
  paragraphs \<open>ab\<close> and \<open>cd\<close>, each within the budget, are accumulated into one chunk of 6
  characters, because the test leaves the separator out; and a single paragraph of 10
  characters, which is never split, is a chunk of 10 characters.
\<close>

theorem chunkText_counterexample:
  "chunkText ''ab\<newline>\<newline>cd'' 1 = [''ab\<newline>\<newline>cd''] \<and>
   split_paragraphs ''ab\<newline>\<newline>cd'' = [''ab'', ''cd''] \<and>
   \<not> length ''ab\<newline>\<newline>cd'' \<le> 1 * 4 \<and>
   chunkText ''aaaaaaaaaa'' 1 = [''aaaaaaaaaa''] \<and>
   \<not> length ''aaaaaaaaaa'' \<le> 1 * 4"
  by (simp add: chunkText_def append_paragraph_def trim_def isWhiteSpace_def)

section \<open>Properties of the progress notifications\<close>

lemma listener_calls_append:
  "listener_calls (xs @ ys) = listener_calls xs @ listener_calls ys"
  by (induction xs rule: listener_calls.induct) simp_all

lemma notify_listener_effects:
  "\<exists>new. notify_listener env ev listener s = (Inr (), s\<lparr>effects := effects s @ new\<rparr>) \<and>
         listener_calls new = [(listener, ev)]"
proof (cases "listener_throws env (effects s) listener ev")
  case None
  then have "notify_listener env ev listener s =
      (Inr (), s\<lparr>effects := effects s @ [ListenerCall listener ev]\<rparr>)"
    by (simp add: notify_listener_def call_listener_def emit_def)
  then show ?thesis by (intro exI [of _ "[ListenerCall listener ev]"]) simp
next
  case (Some e)
  then have "notify_listener env ev listener s =
      (Inr (), s\<lparr>effects := effects s @ [ListenerCall listener ev, ConsoleWarn e]\<rparr>)"
    by (simp add: notify_listener_def call_listener_def emit_def)
  then show ?thesis by (intro exI [of _ "[ListenerCall listener ev, ConsoleWarn e]"]) simp
qed

lemma notify_loop_effects:
  "\<exists>new. notify_loop env ev listeners s = (Inr (), s\<lparr>effects := effects s @ new\<rparr>) \<and>
         listener_calls new = map (\<lambda>listener. (listener, ev)) listeners"
proof (induction listeners arbitrary: s)
  case Nil
  show ?case by (intro exI [of _ "[]"]) simp
next
  case (Cons listener listeners)
  obtain new1 where one:
    "notify_listener env ev listener s = (Inr (), s\<lparr>effects := effects s @ new1\<rparr>)"
    "listener_calls new1 = [(listener, ev)]"
    using notify_listener_effects [of env ev listener s] by auto
  obtain new2 where rest:
    "notify_loop env ev listeners (s\<lparr>effects := effects s @ new1\<rparr>) =
       (Inr (), s\<lparr>effects := effects s @ new1\<rparr>\<lparr>effects := effects (s\<lparr>effects := effects s @ new1\<rparr>) @ new2\<rparr>)"
    "listener_calls new2 = map (\<lambda>listener. (listener, ev)) listeners"
    using Cons.IH [of "s\<lparr>effects := effects s @ new1\<rparr>"] by auto
  show ?case
    using one rest by (intro exI [of _ "new1 @ new2"]) (simp add: listener_calls_append)
qed

lemma notify_loop_publish:
  "notify_loop env ev listeners s =
     (Inr (), s\<lparr>effects := effects s @ publish_spec env ev listeners (effects s)\<rparr>)"
proof (induction listeners arbitrary: s)
  case Nil
  show ?case by simp
next
  case (Cons listener listeners)
  show ?case
  proof (cases "listener_throws env (effects s) listener ev")
    case None
    then have one: "notify_listener env ev listener s =
        (Inr (), s\<lparr>effects := effects s @ [ListenerCall listener ev]\<rparr>)"
      by (simp add: notify_listener_def call_listener_def emit_def)
    show ?thesis
      using None by (simp add: one Cons.IH)
  next
    case (Some e)
    then have one: "notify_listener env ev listener s =
        (Inr (), s\<lparr>effects := effects s @ [ListenerCall listener ev, ConsoleWarn e]\<rparr>)"
      by (simp add: notify_listener_def call_listener_def emit_def)
    show ?thesis
      using Some by (simp add: one Cons.IH)
  qed
qed

lemma listener_calls_publish:
  "listener_calls (publish_spec env ev listeners history) =
     map (\<lambda>listener. (listener, ev)) listeners"
  by (induction listeners arbitrary: history)
    (auto simp: listener_calls_append Let_def split: option.splits)

lemma publish_spec_logged:
  "publish_spec env ev listeners history = before @ ListenerCall listener ev' # after \<Longrightarrow>
   listener_throws env (history @ before) listener ev' = Some e \<Longrightarrow>
     \<exists>rest. after = ConsoleWarn e # rest"
proof (induction listeners arbitrary: history before)
  case Nil
  then show ?case by simp
next
  case (Cons first listeners)
  let ?logged = "case listener_throws env history first ev of None \<Rightarrow> [] | Some e \<Rightarrow> [ConsoleWarn e]"
  let ?called = "ListenerCall first ev # ?logged"
  from Cons.prems(1) have eq:
    "ListenerCall first ev # ?logged @ publish_spec env ev listeners (history @ ?called) =
       before @ ListenerCall listener ev' # after"
    by (simp add: Let_def)
  show ?case
  proof (cases before)
    case Nil
    with eq have "listener = first" "ev' = ev"
      "after = ?logged @ publish_spec env ev listeners (history @ ?called)"
      by auto
    with Cons.prems(2) Nil show ?thesis by simp
  next
    case (Cons b before')
    with eq have b: "b = ListenerCall first ev"
      and tl: "?logged @ publish_spec env ev listeners (history @ ?called) =
                 before' @ ListenerCall listener ev' # after"
      by auto
    show ?thesis
    proof (cases "listener_throws env history first ev")
      case None
      with tl have "publish_spec env ev listeners (history @ [ListenerCall first ev]) =
          before' @ ListenerCall listener ev' # after"
        by simp
      moreover have "listener_throws env ((history @ [ListenerCall first ev]) @ before') listener ev' = Some e"
        using Cons.prems(2) Cons b by simp
      ultimately show ?thesis by (rule Cons.IH)
    next
      case (Some e0)
      with tl have t: "ConsoleWarn e0 #
          publish_spec env ev listeners (history @ [ListenerCall first ev, ConsoleWarn e0]) =
          before' @ ListenerCall listener ev' # after"
        by simp
      then obtain before'' where b': "before' = ConsoleWarn e0 # before''"
        by (cases before') auto
      with t have "publish_spec env ev listeners (history @ [ListenerCall first ev, ConsoleWarn e0]) =
          before'' @ ListenerCall listener ev' # after"
        by simp
      moreover have "listener_throws env
          ((history @ [ListenerCall first ev, ConsoleWarn e0]) @ before'') listener ev' = Some e"
        using Cons.prems(2) Cons b b' by simp
      ultimately show ?thesis by (rule Cons.IH)
    qed
  qed
qed

text \<open>
  Claim C9. For every list of registered listeners, every event and every behaviour of
  the listeners, \<open>notifyProgress\<close> returns normally and changes nothing but the list of
  effects, to which it appends exactly what the specification of publishing prescribes:
  one call of each registered listener with the event, in registration order, and, right
  after the call of a listener that throws, the warning that logs what it threw; the
  listeners after it are called all the same.
\<close>

theorem notifyProgress_delivers:
  "notifyProgress_result env type progress modelName error s =
     (Inr (),
      s\<lparr>effects := effects s @
           publish_spec env (ProgressEvent type progress modelName error)
             (progressListeners s) (effects s)\<rparr>) \<and>
   listener_calls
     (publish_spec env (ProgressEvent type progress modelName error)
        (progressListeners s) (effects s)) =
     map (\<lambda>listener. (listener, ProgressEvent type progress modelName error))
       (progressListeners s) \<and>
   (\<forall>before listener ev after e.
      publish_spec env (ProgressEvent type progress modelName error)
        (progressListeners s) (effects s) = before @ ListenerCall listener ev # after \<and>
      listener_throws env (effects s @ before) listener ev = Some e \<longrightarrow>
      (\<exists>rest. after = ConsoleWarn e # rest))"
proof (intro conjI allI impI)
  show "notifyProgress_result env type progress modelName error s =
     (Inr (),
      s\<lparr>effects := effects s @
           publish_spec env (ProgressEvent type progress modelName error)
             (progressListeners s) (effects s)\<rparr>)"
    by (simp only: notifyProgress_result_def notify_loop_publish)
  show "listener_calls
     (publish_spec env (ProgressEvent type progress modelName error)
        (progressListeners s) (effects s)) =
     map (\<lambda>listener. (listener, ProgressEvent type progress modelName error))
       (progressListeners s)"
    by (rule listener_calls_publish)
  fix before listener ev after e
  assume "publish_spec env (ProgressEvent type progress modelName error)
        (progressListeners s) (effects s) = before @ ListenerCall listener ev # after \<and>
      listener_throws env (effects s @ before) listener ev = Some e"
  then show "\<exists>rest. after = ConsoleWarn e # rest"
    by (elim conjE) (rule publish_spec_logged)
qed

theorem notifyProgress_delivers_witness:
  "notifyProgress_result
     (calm_env\<lparr>listener_throws := (\<lambda>h l ev. if l = 1 then Some ''listener failed'' else None)\<rparr>)
     ''loading'' 50 ''qwen2.5-0.5b-instruct.Q4_K_M.gguf'' None
     (initial_service\<lparr>progressListeners := [0, 1, 2]\<rparr>) =
   (Inr (),
    initial_service
      \<lparr>progressListeners := [0, 1, 2],
       effects :=
         [ListenerCall 0 (ProgressEvent ''loading'' 50 ''qwen2.5-0.5b-instruct.Q4_K_M.gguf'' None),
          ListenerCall 1 (ProgressEvent ''loading'' 50 ''qwen2.5-0.5b-instruct.Q4_K_M.gguf'' None),
          ConsoleWarn ''listener failed'',
          ListenerCall 2 (ProgressEvent ''loading'' 50 ''qwen2.5-0.5b-instruct.Q4_K_M.gguf'' None)]\<rparr>) \<and>
   listener_throws
     (calm_env\<lparr>listener_throws := (\<lambda>h l ev. if l = 1 then Some ''listener failed'' else None)\<rparr>)
     [ListenerCall 0 (ProgressEvent ''loading'' 50 ''qwen2.5-0.5b-instruct.Q4_K_M.gguf'' None)]
     1 (ProgressEvent ''loading'' 50 ''qwen2.5-0.5b-instruct.Q4_K_M.gguf'' None) =
     Some ''listener failed'' \<and>
   (\<exists>rest.
      [ConsoleWarn ''listener failed'',
       ListenerCall (2::nat) (ProgressEvent ''loading'' 50 ''qwen2.5-0.5b-instruct.Q4_K_M.gguf'' None)] =
      ConsoleWarn ''listener failed'' # rest)"
proof -
  let ?env = "calm_env\<lparr>listener_throws := (\<lambda>h l ev. if l = 1 then Some ''listener failed'' else None)\<rparr>"
  let ?s = "initial_service\<lparr>progressListeners := [0, 1, 2]\<rparr> :: nat service"
  let ?ev = "ProgressEvent ''loading'' 50 ''qwen2.5-0.5b-instruct.Q4_K_M.gguf'' None"
  have published: "publish_spec ?env ?ev (progressListeners ?s) (effects ?s) =
      [ListenerCall 0 ?ev] @ ListenerCall 1 ?ev # [ConsoleWarn ''listener failed'', ListenerCall 2 ?ev] \<and>
      listener_throws ?env (effects ?s @ [ListenerCall 0 ?ev]) 1 ?ev = Some ''listener failed''"
    by (simp add: initial_service_def)
  have logged: "\<exists>rest. [ConsoleWarn ''listener failed'', ListenerCall (2::nat) ?ev] =
      ConsoleWarn ''listener failed'' # rest"
    by (rule notifyProgress_delivers [THEN conjunct2, THEN conjunct2, rule_format, OF published])
  have returned: "notifyProgress_result ?env ''loading'' 50 ''qwen2.5-0.5b-instruct.Q4_K_M.gguf'' None ?s =
      (Inr (),
       initial_service
         \<lparr>progressListeners := [0, 1, 2],
          effects := [ListenerCall 0 ?ev, ListenerCall 1 ?ev, ConsoleWarn ''listener failed'',
                      ListenerCall 2 ?ev]\<rparr>)"
    using notifyProgress_delivers [THEN conjunct1, of ?env "''loading''" 50
        "''qwen2.5-0.5b-instruct.Q4_K_M.gguf''" None ?s]
    by (simp add: initial_service_def)
  have throws: "listener_throws ?env [ListenerCall 0 ?ev] 1 ?ev = Some ''listener failed''"
    by simp
  show ?thesis
    by (intro conjI returned throws logged)
qed


section \<open>Properties of the inference operations\<close>

lemma chat_keeps_service:
  "chat env prompt options s = (r, s') \<Longrightarrow> model s' = model s \<and> chatSession s' = chatSession s"
  by (auto simp: chat_def emit_def Let_def split: if_splits)








lemma map_enumerate_snd: "map (\<lambda>(idx, it). f it) (enumerate n xs) = map f xs"
  by (induction xs arbitrary: n) simp_all

lemma match_category_known:
  "match_category categories line \<in> set categories \<union> {''unknown''}"
  by (auto simp: match_category_def Let_def find_Some_iff split: option.splits)

lemma match_category_cases:
  "match_category categories line \<notin> set categories \<Longrightarrow>
     match_category categories line = ''unknown''"
  using match_category_known [of categories line] by auto

lemma batch_loop_fields:
  "map title (fst (batch_loop env remaining categories results s)) =
     map title results @ map title remaining \<and>
   map url (fst (batch_loop env remaining categories results s)) =
     map url results @ map url remaining \<and>
   set (map category (fst (batch_loop env remaining categories results s))) \<subseteq>
     set (map category results) \<union> set categories \<union> {''unknown''}"
proof (induction env remaining categories results s rule: batch_loop.induct)
  case (1 env remaining categories results s)
  show ?case
  proof (cases "remaining = []")
    case True
    then show ?thesis by (subst (1 2 3) batch_loop.simps) auto
  next
    case False
    let ?batch = "take 3 remaining"
    have split: "map title ?batch @ map title (drop 3 remaining) = map title remaining"
      "map url ?batch @ map url (drop 3 remaining) = map url remaining"
      by (simp_all flip: map_append)
    obtain r s' where c: "chat env (batch_prompt categories ?batch)
        \<lparr>opt_maxTokens = Some 64, opt_temperature = Some (1 / 10), opt_topP = None\<rparr> s = (r, s')"
      by (cases "chat env (batch_prompt categories ?batch)
        \<lparr>opt_maxTokens = Some 64, opt_temperature = Some (1 / 10), opt_topP = None\<rparr> s") auto
    show ?thesis
    proof (cases r)
      case (Inr response)
      let ?new = "map (\<lambda>(idx, it). with_category it
                    (match_category categories (line_at (split_lines (trim response)) idx)))
                  (enumerate 0 ?batch)"
      have t: "map title ?new = map title ?batch" "map url ?new = map url ?batch"
        by (simp_all add: case_prod_unfold with_category_def comp_def
            map_enumerate_snd [unfolded case_prod_unfold])
      have k: "set (map category ?new) \<subseteq> set categories \<union> {''unknown''}"
        by (auto simp: with_category_def intro: match_category_cases)
      have step: "batch_loop env remaining categories results s =
          batch_loop env (drop 3 remaining) categories (results @ ?new) s'"
        using False c Inr by (subst batch_loop.simps) (simp add: Let_def)
      let ?R = "fst (batch_loop env (drop 3 remaining) categories (results @ ?new) s')"
      have ih: "map title ?R = map title (results @ ?new) @ map title (drop 3 remaining)"
        "map url ?R = map url (results @ ?new) @ map url (drop 3 remaining)"
        "set (map category ?R) \<subseteq>
           set (map category (results @ ?new)) \<union> set categories \<union> {''unknown''}"
        using "1.IH"(2) [OF False refl c [symmetric] Inr refl] by blast+
      have "map title ?R = map title results @ map title remaining"
        by (simp only: ih(1) map_append append_assoc t(1) split(1))
      moreover have "map url ?R = map url results @ map url remaining"
        by (simp only: ih(2) map_append append_assoc t(2) split(2))
      moreover have "set (map category (results @ ?new)) \<subseteq>
          set (map category results) \<union> set categories \<union> {''unknown''}"
        using k by (simp only: map_append set_append) blast
      then have "set (map category ?R) \<subseteq>
          set (map category results) \<union> set categories \<union> {''unknown''}"
        using ih(3) by blast
      ultimately show ?thesis
        by (simp only: step)
    next
      case (Inl error)
      let ?new = "map (\<lambda>it. with_category it ''unknown'') ?batch"
      have t: "map title ?new = map title ?batch" "map url ?new = map url ?batch"
        by (simp_all add: with_category_def comp_def)
      have k: "set (map category ?new) \<subseteq> set categories \<union> {''unknown''}"
        by (auto simp: with_category_def)
      have step: "batch_loop env remaining categories results s =
          batch_loop env (drop 3 remaining) categories (results @ ?new) (emit (ConsoleWarn error) s')"
        using False c Inl by (subst batch_loop.simps) (simp add: Let_def)
      let ?R = "fst (batch_loop env (drop 3 remaining) categories (results @ ?new) (emit (ConsoleWarn error) s'))"
      have ih: "map title ?R = map title (results @ ?new) @ map title (drop 3 remaining)"
        "map url ?R = map url (results @ ?new) @ map url (drop 3 remaining)"
        "set (map category ?R) \<subseteq>
           set (map category (results @ ?new)) \<union> set categories \<union> {''unknown''}"
        using "1.IH"(1) [OF False refl c [symmetric] Inl] by blast+
      have "map title ?R = map title results @ map title remaining"
        by (simp only: ih(1) map_append append_assoc t(1) split(1))
      moreover have "map url ?R = map url results @ map url remaining"
        by (simp only: ih(2) map_append append_assoc t(2) split(2))
      moreover have "set (map category (results @ ?new)) \<subseteq>
          set (map category results) \<union> set categories \<union> {''unknown''}"
        using k by (simp only: map_append set_append) blast
      then have "set (map category ?R) \<subseteq>
          set (map category results) \<union> set categories \<union> {''unknown''}"
        using ih(3) by blast
      ultimately show ?thesis
        by (simp only: step)
    qed
  qed
qed

lemma chat_throws:
  assumes "model s = None \<or> chatSession s = None \<or>
           (\<forall>h p n t q. \<exists>e. session_prompt env h p n t q = Inl e)"
  shows "\<exists>e s'. chat env prompt options s = (Inl e, s') \<and> model s' = model s \<and>
           chatSession s' = chatSession s"
proof (cases "model s = None \<or> chatSession s = None")
  case True
  then show ?thesis by (auto simp: chat_def)
next
  case False
  with assms have "\<forall>h p n t q. \<exists>e. session_prompt env h p n t q = Inl e" by blast
  then obtain e where "session_prompt env (effects s) prompt
      (or_default (opt_maxTokens options) 256) (or_default (opt_temperature options) (7 / 10))
      (or_default (opt_topP options) (9 / 10)) = Inl e"
    by blast
  with False show ?thesis
    by (auto simp: chat_def Let_def emit_def)
qed

lemma batch_loop_all_unknown:
  "model s = None \<or> chatSession s = None \<or>
     (\<forall>h p n t q. \<exists>e. session_prompt env h p n t q = Inl e) \<Longrightarrow>
   map category (fst (batch_loop env remaining categories results s)) =
     map category results @ map (\<lambda>it. ''unknown'') remaining"
proof (induction env remaining categories results s rule: batch_loop.induct)
  case (1 env remaining categories results s)
  show ?case
  proof (cases "remaining = []")
    case True
    then show ?thesis by (subst batch_loop.simps) simp
  next
    case False
    let ?batch = "take 3 remaining"
    let ?new = "map (\<lambda>it. with_category it ''unknown'') ?batch"
    obtain e s' where c: "chat env (batch_prompt categories ?batch)
        \<lparr>opt_maxTokens = Some 64, opt_temperature = Some (1 / 10), opt_topP = None\<rparr> s = (Inl e, s')"
      and keep: "model s' = model s" "chatSession s' = chatSession s"
      using chat_throws [OF "1.prems"] by blast
    have step: "batch_loop env remaining categories results s =
        batch_loop env (drop 3 remaining) categories (results @ ?new) (emit (ConsoleWarn e) s')"
      using False c by (subst batch_loop.simps) (simp add: Let_def)
    have inv: "model (emit (ConsoleWarn e) s') = None \<or> chatSession (emit (ConsoleWarn e) s') = None \<or>
        (\<forall>h p n t q. \<exists>e. session_prompt env h p n t q = Inl e)"
      using "1.prems" keep by (simp add: emit_def)
    have "map category ?new @ map (\<lambda>it. ''unknown'') (drop 3 remaining) =
        map (\<lambda>it. ''unknown'') (take 3 remaining @ drop 3 remaining)"
      by (simp only: map_append map_map comp_def with_category_def) simp
    then have "map category (results @ ?new) @ map (\<lambda>it. ''unknown'') (drop 3 remaining) =
        map category results @ map (\<lambda>it. ''unknown'') remaining"
      by simp
    with "1.IH"(1) [OF False refl c [symmetric] refl inv] show ?thesis
      by (simp only: step)
  qed
qed

lemma batch_loop_accumulates:
  "fst (batch_loop env remaining categories results s) =
     results @ fst (batch_loop env remaining categories [] s)"
proof (induction "length remaining" arbitrary: remaining results s rule: less_induct)
  case less
  show ?case
  proof (cases "remaining = []")
    case True
    then show ?thesis by (subst (1 2) batch_loop.simps) simp
  next
    case False
    let ?batch = "take 3 remaining"
    have shorter: "length (drop 3 remaining) < length remaining"
      using False by simp
    obtain r s' where c: "chat env (batch_prompt categories ?batch)
        \<lparr>opt_maxTokens = Some 64, opt_temperature = Some (1 / 10), opt_topP = None\<rparr> s = (r, s')"
      by (cases "chat env (batch_prompt categories ?batch)
        \<lparr>opt_maxTokens = Some 64, opt_temperature = Some (1 / 10), opt_topP = None\<rparr> s") auto
    show ?thesis
    proof (cases r)
      case (Inr response)
      let ?new = "map (\<lambda>(idx, it). with_category it
                    (match_category categories (line_at (split_lines (trim response)) idx)))
                  (enumerate 0 ?batch)"
      have step: "\<And>acc. batch_loop env remaining categories acc s =
          batch_loop env (drop 3 remaining) categories (acc @ ?new) s'"
        using False c Inr by (subst batch_loop.simps) (simp add: Let_def)
      show ?thesis
        using less [OF shorter, of "results @ ?new" s'] less [OF shorter, of "[] @ ?new" s']
        by (simp only: step append_assoc append_Nil)
    next
      case (Inl error)
      let ?new = "map (\<lambda>it. with_category it ''unknown'') ?batch"
      have step: "\<And>acc. batch_loop env remaining categories acc s =
          batch_loop env (drop 3 remaining) categories (acc @ ?new) (emit (ConsoleWarn error) s')"
        using False c Inl by (subst batch_loop.simps) (simp add: Let_def)
      show ?thesis
        using less [OF shorter, of "results @ ?new" "emit (ConsoleWarn error) s'"]
          less [OF shorter, of "[] @ ?new" "emit (ConsoleWarn error) s'"]
        by (simp only: step append_assoc append_Nil)
    qed
  qed
qed

lemma batch_loop_failed_batch:
  assumes "remaining \<noteq> []"
    and "chat env (batch_prompt categories (take 3 remaining))
           \<lparr>opt_maxTokens = Some 64, opt_temperature = Some (1 / 10), opt_topP = None\<rparr> s =
         (Inl error, s')"
  shows "fst (batch_loop env remaining categories results s) =
           results @ map (\<lambda>it. with_category it ''unknown'') (take 3 remaining) @
           fst (batch_loop env (drop 3 remaining) categories [] (emit (ConsoleWarn error) s'))"
proof -
  have "batch_loop env remaining categories results s =
      batch_loop env (drop 3 remaining) categories
        (results @ map (\<lambda>it. with_category it ''unknown'') (take 3 remaining))
        (emit (ConsoleWarn error) s')"
    using assms by (subst batch_loop.simps) (simp add: Let_def)
  then show ?thesis
    using batch_loop_accumulates [of env "drop 3 remaining" categories
        "results @ map (\<lambda>it. with_category it ''unknown'') (take 3 remaining)"
        "emit (ConsoleWarn error) s'"]
    by simp
qed

text \<open>
  Claim C10. For every list of items and of categories, and whatever the chat calls
  answer or throw, \<open>batchCategorize\<close> returns one result per item in the order of the
  input, with the item's title and url, and a category that is one of the given categories
  or \<open>unknown\<close>. When the chat calls throw, because no model is loaded or because the
  engine fails, every item resolves to \<open>unknown\<close>.
\<close>

theorem batchCategorize_results:
  "map title (fst (batchCategorize env items categories s)) = map title items \<and>
   map url (fst (batchCategorize env items categories s)) = map url items \<and>
   set (map category (fst (batchCategorize env items categories s))) \<subseteq>
     set categories \<union> {''unknown''} \<and>
   (model s = None \<or> chatSession s = None \<or>
      (\<forall>h p n t q. \<exists>e. session_prompt env h p n t q = Inl e) \<longrightarrow>
    map category (fst (batchCategorize env items categories s)) =
      map (\<lambda>it. ''unknown'') items)"
  using batch_loop_fields [of env items categories "[]" s]
    batch_loop_all_unknown [of s env items categories "[]"]
  by (simp add: batchCategorize_def)

theorem batchCategorize_results_witness:
  "model (initial_service :: nat service) = None \<and>
   map title (fst (batchCategorize calm_env
          [\<lparr>title = ''Docs'', url = ''https://docs.example''\<rparr>,
           \<lparr>title = ''Mail'', url = ''https://mail.example''\<rparr>,
           \<lparr>title = ''News'', url = ''https://news.example''\<rparr>,
           \<lparr>title = ''Shop'', url = ''https://shop.example''\<rparr>]
          [''Work'', ''Personal''] initial_service)) =
     [''Docs'', ''Mail'', ''News'', ''Shop''] \<and>
   map category (fst (batchCategorize calm_env
          [\<lparr>title = ''Docs'', url = ''https://docs.example''\<rparr>,
           \<lparr>title = ''Mail'', url = ''https://mail.example''\<rparr>,
           \<lparr>title = ''News'', url = ''https://news.example''\<rparr>,
           \<lparr>title = ''Shop'', url = ''https://shop.example''\<rparr>]
          [''Work'', ''Personal''] initial_service)) =
     [''unknown'', ''unknown'', ''unknown'', ''unknown'']"
proof -
  have m: "model (initial_service :: nat service) = None"
    by (simp add: initial_service_def)
  from m batchCategorize_results [of calm_env
          "[\<lparr>title = ''Docs'', url = ''https://docs.example''\<rparr>,
           \<lparr>title = ''Mail'', url = ''https://mail.example''\<rparr>,
           \<lparr>title = ''News'', url = ''https://news.example''\<rparr>,
           \<lparr>title = ''Shop'', url = ''https://shop.example''\<rparr>]"
          "[''Work'', ''Personal'']" initial_service]
  show ?thesis by simp
qed

subsection \<open>Summarization\<close>

lemma trim_Nil_iff: "(text = [] \<or> length (trim text) = 0) = (trim text = [])"
  by (auto simp: trim_def)

lemma chat_summary_options:
  assumes "model s \<noteq> None" and "chatSession s \<noteq> None" and "n \<noteq> 0"
  shows "chat env prompt (summary_options n) s =
           (session_prompt env (effects s) prompt n (3 / 10) (9 / 10),
            emit (Prompt prompt n (3 / 10) (9 / 10)) s)"
  using assms by (auto simp: chat_def summary_options_def or_default_def Let_def)

lemma summarize_chunks_effects:
  assumes "\<forall>h p n t q. \<exists>r. session_prompt env h p n t q = Inr r"
  shows "model s \<noteq> None \<Longrightarrow> chatSession s \<noteq> None \<Longrightarrow>
     \<exists>summaries. length summaries = length chunks \<and>
       summarize_chunks env chunks chunkSummaries s =
         (Inr (chunkSummaries @ summaries),
          s\<lparr>effects := effects s @ map (\<lambda>c. Prompt (chunk_prompt c) 100 (3 / 10) (9 / 10)) chunks\<rparr>)"
proof (induction chunks arbitrary: chunkSummaries s)
  case Nil
  then show ?case by simp
next
  case (Cons chunk chunks)
  obtain r where r: "session_prompt env (effects s) (chunk_prompt chunk) 100 (3 / 10) (9 / 10) = Inr r"
    using assms by blast
  let ?s = "emit (Prompt (chunk_prompt chunk) 100 (3 / 10) (9 / 10)) s"
  have c: "chat env (chunk_prompt chunk) (summary_options 100) s = (Inr r, ?s)"
    using chat_summary_options [OF Cons.prems, of 100 env "chunk_prompt chunk"] r by simp
  have "model ?s \<noteq> None" "chatSession ?s \<noteq> None"
    using Cons.prems by (simp_all add: emit_def)
  from Cons.IH [OF this, of "chunkSummaries @ [trim r]"]
  obtain summaries where ih: "length summaries = length chunks"
    "summarize_chunks env chunks (chunkSummaries @ [trim r]) ?s =
       (Inr ((chunkSummaries @ [trim r]) @ summaries),
        ?s\<lparr>effects := effects ?s @ map (\<lambda>c. Prompt (chunk_prompt c) 100 (3 / 10) (9 / 10)) chunks\<rparr>)"
    by blast
  show ?case
    using c ih by (intro exI [of _ "trim r # summaries"]) (simp add: emit_def)
qed

text \<open>
  Claim C4. With a model loaded, \<open>summarize\<close> follows three tiers. For an empty input or
  one of white space only it returns the empty string and makes no call. For an input of
  fewer than 700 estimated tokens it makes exactly one call, the direct summarization
  prompt. For a longer input that \<open>chunkText\<close> leaves in one chunk it makes exactly one
  call, on the truncated text. For a longer input of several chunks it makes, the calls
  being answered, one call for each of the first five chunks at most, in order, and then
  exactly one call combining the summaries; later chunks take no part.
\<close>

theorem summarize_tiers:
  assumes "model s \<noteq> None" and "chatSession s \<noteq> None"
  shows "(trim text = [] \<longrightarrow> summarize env text maxLength s = (Inr [], s)) \<and>
         (trim text \<noteq> [] \<and> estimateTokens text < 700 \<longrightarrow>
            effects (snd (summarize env text maxLength s)) =
              effects s @ [Prompt (summary_prompt maxLength text) 256 (3 / 10) (9 / 10)]) \<and>
         (trim text \<noteq> [] \<and> 700 \<le> estimateTokens text \<and> length (chunkText text 500) = 1 \<longrightarrow>
            effects (snd (summarize env text maxLength s)) =
              effects s @
              [Prompt (summary_prompt maxLength (truncateForContext text 700)) 256 (3 / 10) (9 / 10)]) \<and>
         (trim text \<noteq> [] \<and> 700 \<le> estimateTokens text \<and> 1 < length (chunkText text 500) \<and>
          (\<forall>h p n t q. \<exists>r. session_prompt env h p n t q = Inr r) \<longrightarrow>
            (\<exists>summaries. length summaries = min (length (chunkText text 500)) 5 \<and>
               effects (snd (summarize env text maxLength s)) =
                 effects s @
                 map (\<lambda>c. Prompt (chunk_prompt c) 100 (3 / 10) (9 / 10)) (take 5 (chunkText text 500)) @
                 [Prompt (final_prompt maxLength (js_join '' '' summaries)) 256 (3 / 10) (9 / 10)]))"
proof (intro conjI impI)
  assume "trim text = []"
  then show "summarize env text maxLength s = (Inr [], s)"
    by (simp add: summarize_def)
next
  assume "trim text \<noteq> [] \<and> estimateTokens text < 700"
  then show "effects (snd (summarize env text maxLength s)) =
      effects s @ [Prompt (summary_prompt maxLength text) 256 (3 / 10) (9 / 10)]"
    using chat_summary_options [OF assms, of 256 env]
    by (auto simp: summarize_def emit_def trim_def)
next
  assume "trim text \<noteq> [] \<and> 700 \<le> estimateTokens text \<and> length (chunkText text 500) = 1"
  then show "effects (snd (summarize env text maxLength s)) =
      effects s @
      [Prompt (summary_prompt maxLength (truncateForContext text 700)) 256 (3 / 10) (9 / 10)]"
    using chat_summary_options [OF assms, of 256 env]
    by (auto simp: summarize_def emit_def trim_def)
next
  assume a: "trim text \<noteq> [] \<and> 700 \<le> estimateTokens text \<and> 1 < length (chunkText text 500) \<and>
          (\<forall>h p n t q. \<exists>r. session_prompt env h p n t q = Inr r)"
  let ?chunks = "chunkText text 500"
  let ?first = "take (min (length ?chunks) 5) ?chunks"
  let ?s = "s\<lparr>effects := effects s @ map (\<lambda>c. Prompt (chunk_prompt c) 100 (3 / 10) (9 / 10)) ?first\<rparr>"
  from a have reliable: "\<forall>h p n t q. \<exists>r. session_prompt env h p n t q = Inr r" by blast
  from summarize_chunks_effects [OF reliable assms, of ?first "[]"]
  obtain summaries where sm: "length summaries = length ?first"
    "summarize_chunks env ?first [] s = (Inr summaries, ?s)"
    by auto
  have loaded: "model ?s \<noteq> None" "chatSession ?s \<noteq> None"
    using assms by simp_all
  have "summarize env text maxLength s =
      chat env (final_prompt maxLength (js_join '' '' summaries)) (summary_options 256) ?s"
    using a sm(2) by (auto simp: summarize_def trim_def Let_def)
  then have "effects (snd (summarize env text maxLength s)) =
      effects ?s @ [Prompt (final_prompt maxLength (js_join '' '' summaries)) 256 (3 / 10) (9 / 10)]"
    using chat_summary_options [OF loaded, of 256 env] by (simp add: emit_def)
  moreover have "?first = take 5 ?chunks"
    by (simp add: min_def)
  moreover have "length summaries = min (length ?chunks) 5"
    using sm(1) by simp
  ultimately show "\<exists>summaries. length summaries = min (length (chunkText text 500)) 5 \<and>
       effects (snd (summarize env text maxLength s)) =
         effects s @
         map (\<lambda>c. Prompt (chunk_prompt c) 100 (3 / 10) (9 / 10)) (take 5 (chunkText text 500)) @
         [Prompt (final_prompt maxLength (js_join '' '' summaries)) 256 (3 / 10) (9 / 10)]"
    by (intro exI [of _ summaries]) simp
qed

lemma dropWhile_id: "xs \<noteq> [] \<Longrightarrow> \<not> P (hd xs) \<Longrightarrow> dropWhile P xs = xs"
  by (cases xs) auto

lemma trim_id:
  assumes "s \<noteq> []" and "\<not> isWhiteSpace (hd s)" and "\<not> isWhiteSpace (last s)"
  shows "trim s = s"
proof -
  have "dropWhile isWhiteSpace s = s"
    using assms(1,2) by (rule dropWhile_id)
  moreover have "dropWhile isWhiteSpace (rev s) = rev s"
    using assms(1,3) by (intro dropWhile_id) (simp_all add: hd_rev)
  ultimately show ?thesis
    by (simp add: trim_def)
qed

lemma split_paragraphs_no_newline:
  "CHR ''\<newline>'' \<notin> set s \<Longrightarrow> split_paragraphs s = [s]"
  by (induction s) auto

lemma split_paragraphs_blank_line:
  "CHR ''\<newline>'' \<notin> set xs \<Longrightarrow> ys = [] \<or> hd ys \<noteq> CHR ''\<newline>'' \<Longrightarrow>
     split_paragraphs (xs @ CHR ''\<newline>'' # CHR ''\<newline>'' # ys) = xs # split_paragraphs ys"
proof (induction xs)
  case Nil
  then have "dropWhile (\<lambda>x. x = CHR ''\<newline>'') ys = ys"
    by (cases ys) auto
  then show ?case by simp
next
  case (Cons x xs)
  then show ?case by auto
qed

lemma long_document_chunks:
  "chunkText long_document 500 =
     [replicate 1500 (CHR ''a''), replicate 1500 (CHR ''b''), replicate 1500 (CHR ''c''),
      replicate 1500 (CHR ''d''), replicate 1500 (CHR ''e''), replicate 1500 (CHR ''f'')]"
proof -
  have sp: "split_paragraphs long_document =
     [replicate 1500 (CHR ''a''), replicate 1500 (CHR ''b''), replicate 1500 (CHR ''c''),
      replicate 1500 (CHR ''d''), replicate 1500 (CHR ''e''), replicate 1500 (CHR ''f'')]"
    by (simp add: long_document_def split_paragraphs_blank_line split_paragraphs_no_newline)
  have tr: "\<And>c. \<not> isWhiteSpace c \<Longrightarrow> trim (replicate 1500 c) = replicate 1500 c"
    by (rule trim_id) simp_all
  show ?thesis
    by (simp add: chunkText_def sp append_paragraph_def tr isWhiteSpace_def)
qed

lemma long_document_long: "trim long_document \<noteq> [] \<and> 700 \<le> estimateTokens long_document"
proof -
  have "trim long_document = long_document"
    by (rule trim_id) (simp_all add: long_document_def isWhiteSpace_def)
  then show ?thesis
    by (simp add: estimateTokens_div) (simp add: long_document_def)
qed

theorem summarize_tiers_witness:
  "model loaded_service \<noteq> None \<and> chatSession loaded_service \<noteq> None \<and>
   trim ''  '' = [] \<and>
   summarize calm_env ''  '' 3 loaded_service = (Inr [], loaded_service) \<and>
   effects (snd (summarize calm_env ''A short note.'' 3 loaded_service)) =
     [Prompt (summary_prompt 3 ''A short note.'') 256 (3 / 10) (9 / 10)] \<and>
   effects (snd (summarize calm_env (replicate 2804 (CHR ''a'')) 3 loaded_service)) =
     [Prompt (summary_prompt 3 (truncateForContext (replicate 2804 (CHR ''a'')) 700)) 256
        (3 / 10) (9 / 10)] \<and>
   (\<exists>summaries. length summaries = 5 \<and>
      effects (snd (summarize calm_env long_document 3 loaded_service)) =
        [Prompt (chunk_prompt (replicate 1500 (CHR ''a''))) 100 (3 / 10) (9 / 10),
         Prompt (chunk_prompt (replicate 1500 (CHR ''b''))) 100 (3 / 10) (9 / 10),
         Prompt (chunk_prompt (replicate 1500 (CHR ''c''))) 100 (3 / 10) (9 / 10),
         Prompt (chunk_prompt (replicate 1500 (CHR ''d''))) 100 (3 / 10) (9 / 10),
         Prompt (chunk_prompt (replicate 1500 (CHR ''e''))) 100 (3 / 10) (9 / 10),
         Prompt (final_prompt 3 (js_join '' '' summaries)) 256 (3 / 10) (9 / 10)])"
proof -
  have h: "model loaded_service \<noteq> None" "chatSession loaded_service \<noteq> None"
    by (simp_all add: loaded_service_def)
  have e0: "effects loaded_service = []"
    by (simp add: loaded_service_def)
  have f1: "trim ''  '' = []"
    by (simp add: trim_def isWhiteSpace_def)
  have w1: "summarize calm_env ''  '' 3 loaded_service = (Inr [], loaded_service)"
    by (rule summarize_tiers [OF h, THEN conjunct1, THEN mp]) (rule f1)
  have f2: "trim ''A short note.'' \<noteq> [] \<and> estimateTokens ''A short note.'' < 700"
    by (simp add: trim_def isWhiteSpace_def estimateTokens_div)
  have w2: "effects (snd (summarize calm_env ''A short note.'' 3 loaded_service)) =
      [Prompt (summary_prompt 3 ''A short note.'') 256 (3 / 10) (9 / 10)]"
    using summarize_tiers [OF h, THEN conjunct2, THEN conjunct1, THEN mp, OF f2, of calm_env 3]
    by (simp only: e0 append_Nil)
  have t3: "trim (replicate 2804 (CHR ''a'')) = replicate 2804 (CHR ''a'')"
    by (rule trim_id) (simp_all add: isWhiteSpace_def)
  have f3: "trim (replicate 2804 (CHR ''a'')) \<noteq> [] \<and>
      700 \<le> estimateTokens (replicate 2804 (CHR ''a'')) \<and>
      length (chunkText (replicate 2804 (CHR ''a'')) 500) = 1"
    by (simp add: t3 estimateTokens_div chunkText_def split_paragraphs_no_newline
        append_paragraph_def)
  have w3: "effects (snd (summarize calm_env (replicate 2804 (CHR ''a'')) 3 loaded_service)) =
      [Prompt (summary_prompt 3 (truncateForContext (replicate 2804 (CHR ''a'')) 700)) 256
         (3 / 10) (9 / 10)]"
    using summarize_tiers [OF h, THEN conjunct2, THEN conjunct2, THEN conjunct1, THEN mp, OF f3,
        of calm_env 3]
    by (simp only: e0 append_Nil)
  have five: "Suc (Suc (Suc (Suc (Suc 0)))) = 5"
    by simp
  have f4: "trim long_document \<noteq> [] \<and> 700 \<le> estimateTokens long_document \<and>
      1 < length (chunkText long_document 500) \<and>
      (\<forall>h p n t q. \<exists>r. session_prompt calm_env h p n t q = Inr r)"
    using long_document_long by (simp add: long_document_chunks calm_env_def)
  have w4: "\<exists>summaries. length summaries = 5 \<and>
      effects (snd (summarize calm_env long_document 3 loaded_service)) =
        [Prompt (chunk_prompt (replicate 1500 (CHR ''a''))) 100 (3 / 10) (9 / 10),
         Prompt (chunk_prompt (replicate 1500 (CHR ''b''))) 100 (3 / 10) (9 / 10),
         Prompt (chunk_prompt (replicate 1500 (CHR ''c''))) 100 (3 / 10) (9 / 10),
         Prompt (chunk_prompt (replicate 1500 (CHR ''d''))) 100 (3 / 10) (9 / 10),
         Prompt (chunk_prompt (replicate 1500 (CHR ''e''))) 100 (3 / 10) (9 / 10),
         Prompt (final_prompt 3 (js_join '' '' summaries)) 256 (3 / 10) (9 / 10)]"
    using summarize_tiers [OF h, THEN conjunct2, THEN conjunct2, THEN conjunct2, THEN mp, OF f4,
        of 3]
    by (simp add: long_document_chunks e0 five)
  show ?thesis
    by (intro conjI h f1 w1 w2 w3 w4)
qed

section \<open>Properties of the integrity check\<close>

text \<open>
  Claim C7. For a model of the size table, \<open>isModelValid\<close> is true exactly when the file
  exists, its size can be read, and the size is at least the larger of 100,000,000 bytes
  and nine tenths of the expected size; a file system error gives false.
\<close>

theorem isModelValid_iff:
  assumes "MODEL_SIZES modelName = Some expectedSize"
  shows "isModelValid fs modelPath modelName =
           (existsSync fs modelPath \<and>
            (\<exists>fileSize. statSync fs modelPath = Inr fileSize \<and>
               max 100000000 (rat_of_nat expectedSize * (9 / 10)) \<le> rat_of_nat fileSize))"
proof (cases "statSync fs modelPath")
  case (Inl e)
  then show ?thesis by (simp add: isModelValid_def)
next
  case (Inr fileSize)
  have "(fileSize < 100000000) = (rat_of_nat fileSize < 100000000)"
    by (metis of_nat_less_iff of_nat_numeral)
  then show ?thesis
    using assms Inr by (auto simp: isModelValid_def Let_def)
qed

theorem isModelValid_iff_witness:
  "MODEL_SIZES ''qwen2.5-1.5b-instruct.Q4_K_M.gguf'' = Some 1000000000 \<and>
   existsSync [''/models/q'' \<mapsto> Inr 899999999] ''/models/q'' \<and>
   \<not> isModelValid [''/models/q'' \<mapsto> Inr 899999999] ''/models/q'' ''qwen2.5-1.5b-instruct.Q4_K_M.gguf'' \<and>
   isModelValid [''/models/q'' \<mapsto> Inr 900000000] ''/models/q'' ''qwen2.5-1.5b-instruct.Q4_K_M.gguf'' \<and>
   \<not> isModelValid [''/models/q'' \<mapsto> Inl ''EACCES''] ''/models/q'' ''qwen2.5-1.5b-instruct.Q4_K_M.gguf''"
proof -
  have m: "MODEL_SIZES ''qwen2.5-1.5b-instruct.Q4_K_M.gguf'' = Some 1000000000"
    by (simp add: MODEL_SIZES_def)
  show ?thesis
    using m isModelValid_iff [OF m, of "[''/models/q'' \<mapsto> Inr 899999999]" "''/models/q''"]
      isModelValid_iff [OF m, of "[''/models/q'' \<mapsto> Inr 900000000]" "''/models/q''"]
      isModelValid_iff [OF m, of "[''/models/q'' \<mapsto> Inl ''EACCES'']" "''/models/q''"]
    by (simp add: existsSync_def statSync_def)
qed

section \<open>Properties of model management\<close>

text \<open>
  Claim C3. When the requested model is the current one, a model is loaded and no load is
  in progress, \<open>loadModel\<close> returns true at once and the state is the same as before, the
  list of effects included: no request, no call of the engine, no call of a listener.
\<close>

theorem loadModel_idempotent:
  assumes "currentModelName s = Some modelName" and "model s \<noteq> None" and "\<not> isLoading s"
  shows "loadModel env modelName s = (Returned True, s)"
  using assms by (simp add: loadModel_def loadModel_begin_def)

theorem loadModel_idempotent_witness:
  "currentModelName loaded_service = Some ''llama-3.2-1b-instruct.Q4_K_M.gguf'' \<and>
   model loaded_service \<noteq> None \<and> \<not> isLoading loaded_service \<and>
   loadModel calm_env ''llama-3.2-1b-instruct.Q4_K_M.gguf'' loaded_service =
     (Returned True, loaded_service)"
proof -
  have h: "currentModelName loaded_service = Some ''llama-3.2-1b-instruct.Q4_K_M.gguf''"
    "model loaded_service \<noteq> None" "\<not> isLoading loaded_service"
    by (simp_all add: loaded_service_def)
  from h loadModel_idempotent [OF h, of calm_env] show ?thesis by simp
qed

lemma loadModel_rejects_while_loading:
  "isLoading s \<Longrightarrow> loadModel env modelName s = (Threw ''Model is already loading'', s)"
  by (simp add: loadModel_def loadModel_begin_def)

lemma first_call_suspended:
  "loadModel_begin calm_env ''llama-3.2-1b-instruct.Q4_K_M.gguf'' initial_service =
     (AwaitingDownload Requested,
      initial_service
        \<lparr>effects := [HttpGet ''https://huggingface.co/bartowski/Llama-3.2-1B-Instruct-GGUF/resolve/main/Llama-3.2-1B-Instruct-Q4_K_M.gguf'']\<rparr>)"
  by (simp add: loadModel_begin_def downloadModel_start_def initial_service_def calm_env_def
      MODEL_URLS_def existsSync_def emit_def)

lemma notifyProgress_effects:
  "\<exists>new. notifyProgress env type progress modelName error s = s\<lparr>effects := effects s @ new\<rparr> \<and>
         listener_calls new =
           map (\<lambda>listener. (listener, ProgressEvent type progress modelName error))
             (progressListeners s)"
  using notify_loop_effects [of env "ProgressEvent type progress modelName error"
      "progressListeners s" s]
  by (auto simp: notifyProgress_def notifyProgress_result_def)

lemma loadModel_load_settles: "fst (loadModel_load env modelName s) \<noteq> Pending"
  by (simp add: loadModel_load_def Let_def split: prod.splits sum.splits)

lemma loadModel_load_failure:
  assumes "loadModel_load env modelName s = (Threw e, s')"
  shows "\<not> isLoading s' \<and> loadProgress s' = 0 \<and>
         (\<exists>before. listener_calls (effects s') =
            before @ map (\<lambda>listener. (listener, ProgressEvent ''error'' 0 modelName (Some e)))
                       (progressListeners s'))"
proof -
  let ?s1 = "notifyProgress env ''loading'' 50 modelName None (s\<lparr>isLoading := True, loadProgress := 50\<rparr>)"
  obtain r s2 where t: "load_try env modelName (join_path env (MODELS_DIR env) modelName) ?s1 = (r, s2)"
    by (cases "load_try env modelName (join_path env (MODELS_DIR env) modelName) ?s1") auto
  with assms have r: "r = Inl e"
    and s': "s' = notifyProgress env ''error'' 0 modelName (Some e) (s2\<lparr>isLoading := False, loadProgress := 0\<rparr>)"
    by (auto simp: loadModel_load_def Let_def split: sum.splits)
  obtain new where n:
    "s' = s2\<lparr>isLoading := False, loadProgress := 0\<rparr>\<lparr>effects := effects (s2\<lparr>isLoading := False, loadProgress := 0\<rparr>) @ new\<rparr>"
    "listener_calls new =
       map (\<lambda>listener. (listener, ProgressEvent ''error'' 0 modelName (Some e)))
         (progressListeners (s2\<lparr>isLoading := False, loadProgress := 0\<rparr>))"
    using notifyProgress_effects [of env "''error''" 0 modelName "Some e"
        "s2\<lparr>isLoading := False, loadProgress := 0\<rparr>"] s'
    by auto
  show ?thesis
    using n by (simp add: listener_calls_append)
qed

text \<open>
  Claim C1 does not hold while the download is awaited. In the initial state, with no
  model file, a first call of \<open>loadModel\<close> is suspended at \<open>await downloadModel(...)\<close> with
  the request sent, and \<open>isLoading\<close> is still false, the flag being set only after the
  download. A second call made at that moment, for another model or for the same one, is
  not rejected: it goes on to \<open>downloadModel\<close> and sends a request of its own. Once
  \<open>isLoading\<close> is set the guard rejects every call (\<open>loadModel_rejects_while_loading\<close>).
\<close>

theorem loadModel_guard_misses_download:
  "fst (loadModel_begin calm_env ''llama-3.2-1b-instruct.Q4_K_M.gguf'' initial_service) =
     AwaitingDownload Requested \<and>
   \<not> isLoading (snd (loadModel_begin calm_env ''llama-3.2-1b-instruct.Q4_K_M.gguf'' initial_service)) \<and>
   fst (loadModel_begin calm_env ''qwen2.5-0.5b-instruct.Q4_K_M.gguf''
          (snd (loadModel_begin calm_env ''llama-3.2-1b-instruct.Q4_K_M.gguf'' initial_service))) =
     AwaitingDownload Requested \<and>
   fst (loadModel_begin calm_env ''llama-3.2-1b-instruct.Q4_K_M.gguf''
          (snd (loadModel_begin calm_env ''llama-3.2-1b-instruct.Q4_K_M.gguf'' initial_service))) =
     AwaitingDownload Requested"
  unfolding first_call_suspended
  by (simp add: loadModel_begin_def downloadModel_start_def initial_service_def calm_env_def
      MODEL_URLS_def existsSync_def emit_def)

text \<open>
  Claim C2 does not hold for a failure of the download, which is awaited before the
  \<open>try\<close> block. With the default model loaded and a listener registered, a request for
  another model whose download is answered with status 404 throws to the caller, but no
  listener is called, the progress stays at 100 and the current model name is kept. A
  failure inside the \<open>try\<close> block is published and resets the progress
  (\<open>loadModel_load_failure\<close>).
\<close>

theorem loadModel_download_failure_unpublished:
  "fst (loadModel calm_env ''qwen2.5-0.5b-instruct.Q4_K_M.gguf''
          (loaded_service\<lparr>network := [Response 404 None None [] True]\<rparr>)) =
     Threw ''Download failed: HTTP 404'' \<and>
   progressListeners loaded_service = [0] \<and>
   listener_calls (effects (snd (loadModel calm_env ''qwen2.5-0.5b-instruct.Q4_K_M.gguf''
          (loaded_service\<lparr>network := [Response 404 None None [] True]\<rparr>)))) = [] \<and>
   loadProgress (snd (loadModel calm_env ''qwen2.5-0.5b-instruct.Q4_K_M.gguf''
          (loaded_service\<lparr>network := [Response 404 None None [] True]\<rparr>))) = 100 \<and>
   currentModelName (snd (loadModel calm_env ''qwen2.5-0.5b-instruct.Q4_K_M.gguf''
          (loaded_service\<lparr>network := [Response 404 None None [] True]\<rparr>))) =
     Some ''llama-3.2-1b-instruct.Q4_K_M.gguf''"
  by (simp add: loadModel_def loadModel_begin_def downloadModel_start_def download_await_def
      loaded_service_def calm_env_def MODEL_URLS_def existsSync_def emit_def show_nat.simps
      digit_char_def)

end
